theory Spec2Isabelle
  imports Complex_Main "HOL-Library.Signed_Division" "HOL-Library.Log_Nat"
begin

section \<open>Durations, errors and decimal formatting\<close>

text \<open>
  Go's \<open>time.Duration\<close> is a signed 64-bit count of nanoseconds. The model keeps
  durations and clock readings as integers; no operation of this package overflows them.
\<close>

type_synonym duration = int

definition Nanosecond :: duration where
  "Nanosecond = 1"

definition Millisecond :: duration where
  "Millisecond = 1000000 * Nanosecond"

definition Second :: duration where
  "Second = 1000 * Millisecond"

text \<open>
  Error values. \<open>Cause\<close> is an error made outside this package (what the store client
  returns); \<open>Canceled\<close> and \<open>DeadlineExceeded\<close> are the two values of \<open>ctx.Err()\<close>;
  \<open>Errorf msg\<close> is \<open>fmt.Errorf\<close> with a finished message; \<open>Wrapf p e\<close> is
  \<open>fmt.Errorf("p: %w", e)\<close>.
\<close>

datatype error =
    Cause string
  | Canceled
  | DeadlineExceeded
  | Errorf string
  | Wrapf string error

text \<open>The verb \<open>%d\<close> of \<open>fmt.Sprintf\<close> on an integer: decimal digits, a minus sign first
  when the number is negative.\<close>

definition digit_char :: "int \<Rightarrow> char" where
  "digit_char d = char_of (48 + d)"

function show_digits :: "int \<Rightarrow> string" where
  "show_digits n = (if n < 10 then [digit_char n] else show_digits (n div 10) @ [digit_char (n mod 10)])"
  by pat_completeness auto
termination
  by (relation "measure nat") auto

declare show_digits.simps [simp del]

definition show_int :: "int \<Rightarrow> string" where
  "show_int i = (if i < 0 then CHR ''-'' # show_digits (- i) else show_digits i)"

text \<open>Reading a decimal numeral back; used only to reason about \<open>show_int\<close>.\<close>

definition digit_val :: "char \<Rightarrow> int" where
  "digit_val c = of_char c - 48"

definition read_digits :: "string \<Rightarrow> int" where
  "read_digits s = foldl (\<lambda>acc c. 10 * acc + digit_val c) 0 s"

definition read_int :: "string \<Rightarrow> int" where
  "read_int s = (case s of
       [] \<Rightarrow> 0
     | c # cs \<Rightarrow> if c = CHR ''-'' then - read_digits cs else read_digits (c # cs))"


section \<open>Configuration\<close>

text \<open>
  \<open>Options\<close> is the struct the handle works from. \<open>MaxRetries\<close> is a Go \<open>int\<close>.
\<close>

record Options =
  Key :: string
  TTL :: duration
  RetryDelay :: duration
  MaxRetries :: int
  EnableTrace :: bool

text \<open>
  \<open>Config\<close> is the struct read from a configuration file. Its two duration fields have the
  type \<open>Duration\<close> of the configuration package, whose method \<open>Duration()\<close> gives the
  \<open>time.Duration\<close> it holds; the model stores that value. The prefix \<open>cfg_\<close> keeps the
  field names apart from those of \<open>Options\<close>.
\<close>

record Config =
  cfg_Enabled :: bool
  cfg_TTL :: duration
  cfg_RetryDelay :: duration
  cfg_MaxRetries :: int
  cfg_EnableTrace :: bool

text \<open>\<open>Validate\<close> has a pointer receiver: \<open>None\<close> is the nil pointer. The result is the
  returned error, \<open>None\<close> for nil.\<close>

definition Validate :: "Config option \<Rightarrow> error option" where
  "Validate c = (case c of
       None \<Rightarrow> Some (Errorf ''lock config cannot be nil'')
     | Some c \<Rightarrow>
         if \<not> cfg_Enabled c then None
         else if cfg_TTL c \<le> 0 then Some (Errorf ''lock ttl must be greater than 0'')
         else if cfg_MaxRetries c < 0 then Some (Errorf ''lock max_retries must be non-negative'')
         else None)"

text \<open>\<open>ToOptions\<close> returns the options or the error (\<open>Inl\<close>). It leaves \<open>Key\<close> unset, so
  the key is the empty string. A nil receiver never passes \<open>Validate\<close>; were it to, the
  field read that follows would fail on it.\<close>

definition ToOptions :: "Config option \<Rightarrow> error + Options" where
  "ToOptions c = (case Validate c of
       Some err \<Rightarrow> Inl err
     | None \<Rightarrow> (case c of
           None \<Rightarrow> Inl (Errorf ''lock config cannot be nil'')
         | Some c \<Rightarrow>
             if \<not> cfg_Enabled c then Inl (Errorf ''lock is not enabled'')
             else
               let ttl = cfg_TTL c;
                   ttl = (if ttl = 0 then 30 * Second else ttl);
                   retryDelay = cfg_RetryDelay c;
                   retryDelay = (if retryDelay = 0 then 100 * Millisecond else retryDelay);
                   maxRetries = cfg_MaxRetries c;
                   maxRetries = (if maxRetries = 0 then 3 else maxRetries)
               in Inr \<lparr>Key = [], TTL = ttl, RetryDelay = retryDelay,
                        MaxRetries = maxRetries, EnableTrace = cfg_EnableTrace c\<rparr>))"


section \<open>The lock handle\<close>

text \<open>
  \<open>RedisLock\<close> holds the client, the options and the value written to the store. The
  client is the connection to the store; the model passes the store itself (the world,
  below) to every operation, so the record keeps the two remaining fields.
\<close>

record RedisLock =
  options :: Options
  lock_value :: string

text \<open>\<open>generateLockValue\<close> formats \<open>time.Now().UnixNano()\<close>; the clock reading is the
  argument.\<close>

definition generateLockValue :: "int \<Rightarrow> string" where
  "generateLockValue now = show_int now"

text \<open>\<open>NewRedisLock\<close>: \<open>None\<close> is the nil options pointer. The composite literal of the
  nil branch names four fields, so \<open>Key\<close> has the zero value, the empty string.\<close>

definition NewRedisLock :: "int \<Rightarrow> Options option \<Rightarrow> RedisLock" where
  "NewRedisLock now opts =
     (let opts = (case opts of
                    None \<Rightarrow> \<lparr>Key = [], TTL = 30 * Second, RetryDelay = 100 * Millisecond,
                             MaxRetries = 3, EnableTrace = True\<rparr>
                  | Some given \<Rightarrow> given)
      in \<lparr>options = opts, lock_value = generateLockValue now\<rparr>)"


section \<open>The store, the clock and the context\<close>

text \<open>
  Modelled from the spec: the key-value store behind the \<open>RedisClient\<close> interface, whose
  implementation is not part of the package. An entry is a value with an expiration; the
  expiration is the clock reading at which the entry lapses, \<open>None\<close> for an entry that
  never lapses. A lapsed entry still sits in the map and counts as absent. Of the four
  methods of the interface, \<open>lock.go\<close> calls \<open>SetNX\<close> and \<open>Eval\<close>; these two are modelled.
\<close>

record entry =
  val :: string
  expiry :: "int option"

text \<open>Values a script sees and returns. A read of an absent key gives \<open>LuaFalse\<close>.\<close>

datatype lua_value = LuaFalse | LuaString string | LuaNumber int

text \<open>
  A record of what the handle asked of its surroundings, in order: the two client calls
  with their arguments and results, and the wait between two attempts with the clock
  reading at its start, the delay and how it ended (\<open>Some e\<close>: the context was done first).
\<close>

datatype call =
    Call_SetNX string string duration "error + bool"
  | Call_Eval "string list" "lua_value list" "error + lua_value"
  | Call_Wait int duration "error option"

text \<open>What the tracing wrapper hands to the logger and to the span.\<close>

datatype log_entry =
    Span_start string string string
  | Log_error string string string duration error
  | Log_info string string string duration
  | Span_duration_ms int
  | Span_status_error error
  | Span_record_error error
  | Span_status_ok
  | Span_end

text \<open>
  The world an operation runs in: the store, the clock (nanoseconds, the reading of
  \<open>time.Now()\<close>), the outcome of each coming round trip to the store (\<open>Some e\<close>: the round
  trip fails with \<open>e\<close>; past the end of the list every round trip succeeds), the choice the
  runtime makes each time both cases of the \<open>select\<close> are ready at once (\<open>True\<close>: the
  context's case), and the two records above. A round trip takes no time.
\<close>

record world =
  store :: "string \<rightharpoonup> entry"
  clock :: int
  faults :: "error option list"
  ties :: "bool list"
  calls :: "call list"
  logs :: "log_entry list"

definition lookup :: "world \<Rightarrow> string \<Rightarrow> entry option" where
  "lookup w k = (case store w k of
       None \<Rightarrow> None
     | Some e \<Rightarrow> (case expiry e of
           None \<Rightarrow> Some e
         | Some t \<Rightarrow> if clock w < t then Some e else None))"

definition next_fault :: "world \<Rightarrow> error option \<times> world" where
  "next_fault w = (case faults w of
       [] \<Rightarrow> (None, w)
     | f # fs \<Rightarrow> (f, w\<lparr>faults := fs\<rparr>))"

definition record_call :: "call \<Rightarrow> world \<Rightarrow> world" where
  "record_call c w = w\<lparr>calls := calls w @ [c]\<rparr>"

definition emit :: "log_entry \<Rightarrow> world \<Rightarrow> world" where
  "emit x w = w\<lparr>logs := logs w @ [x]\<rparr>"

text \<open>
  Modelled from the spec: \<open>SetNX\<close> of the client, the store's atomic create-if-absent with
  expiration. A failed round trip leaves the store as it was.
\<close>

definition SetNX :: "string \<Rightarrow> string \<Rightarrow> duration \<Rightarrow> world \<Rightarrow> (error + bool) \<times> world" where
  "SetNX key v expiration w =
     (let (f, w1) = next_fault w;
          (r, w2) = (case f of
               Some e \<Rightarrow> (Inl e, w1)
             | None \<Rightarrow>
                 if lookup w1 key = None
                 then (Inr True,
                       w1\<lparr>store := (store w1)(key \<mapsto> \<lparr>val = v, expiry = Some (clock w1 + expiration)\<rparr>)\<rparr>)
                 else (Inr False, w1))
      in (r, record_call (Call_SetNX key v expiration r) w2))"

text \<open>Modelled from the spec: the three store commands the scripts call.\<close>

definition redis_get :: "string \<Rightarrow> world \<Rightarrow> lua_value" where
  "redis_get key w = (case lookup w key of None \<Rightarrow> LuaFalse | Some e \<Rightarrow> LuaString (val e))"

definition redis_del :: "string \<Rightarrow> world \<Rightarrow> lua_value \<times> world" where
  "redis_del key w = (case lookup w key of
       None \<Rightarrow> (LuaNumber 0, w)
     | Some e \<Rightarrow> (LuaNumber 1, w\<lparr>store := (store w)(key := None)\<rparr>))"

definition redis_expire :: "string \<Rightarrow> lua_value \<Rightarrow> world \<Rightarrow> (error + lua_value) \<times> world" where
  "redis_expire key seconds w = (case seconds of
       LuaNumber n \<Rightarrow> (case lookup w key of
           None \<Rightarrow> (Inr (LuaNumber 0), w)
         | Some e \<Rightarrow> (Inr (LuaNumber 1),
                      w\<lparr>store := (store w)(key \<mapsto> e\<lparr>expiry := Some (clock w + n * Second)\<rparr>)\<rparr>))
     | _ \<Rightarrow> (Inl (Cause ''ERR value is not an integer or out of range''), w))"

text \<open>
  The two scripts of \<open>lock.go\<close>, as functions of \<open>KEYS\<close>, \<open>ARGV\<close> and the store. Lua counts
  from one: \<open>KEYS[1]\<close> is \<open>KEYS ! 0\<close>.
\<close>

type_synonym script = "string list \<Rightarrow> lua_value list \<Rightarrow> world \<Rightarrow> (error + lua_value) \<times> world"

definition unlock_script :: script where
  "unlock_script KEYS ARGV w =
     (if redis_get (KEYS ! 0) w = ARGV ! 0
      then (let (n, w') = redis_del (KEYS ! 0) w in (Inr n, w'))
      else (Inr (LuaNumber 0), w))"

definition extend_script :: script where
  "extend_script KEYS ARGV w =
     (if redis_get (KEYS ! 0) w = ARGV ! 0
      then redis_expire (KEYS ! 0) (ARGV ! 1) w
      else (Inr (LuaNumber 0), w))"

text \<open>
  Modelled from the spec: \<open>Eval\<close> of the client, one atomic round trip that runs a script.
  A failed round trip leaves the store as it was.
\<close>

definition Eval :: "script \<Rightarrow> string list \<Rightarrow> lua_value list \<Rightarrow> world \<Rightarrow> (error + lua_value) \<times> world" where
  "Eval scr keys args w =
     (let (f, w1) = next_fault w;
          (r, w2) = (case f of
               Some e \<Rightarrow> (Inl e, w1)
             | None \<Rightarrow> scr keys args w1)
      in (r, record_call (Call_Eval keys args r) w2))"

text \<open>
  A context: the clock reading at which it is done (cancelled, or its deadline passed),
  \<open>None\<close> if never, and the value of \<open>ctx.Err()\<close> from then on.
\<close>

record Context =
  done_at :: "int option"
  ctx_Err :: error

text \<open>
  The \<open>select\<close> of \<open>lock\<close>: \<open>ctx.Done()\<close> against \<open>time.After(d)\<close>, entered at clock
  reading \<open>s\<close>. The timer is ready at \<open>s + d\<close>, at once when \<open>d\<close> is not positive; the
  context's case is ready once the context is done. The case that is ready first runs and
  the clock stands at that instant; when both are ready at the same instant the runtime
  picks one. \<open>select_ready\<close> gives the case that runs (\<open>Some e\<close>: the context's, with its
  error), the clock reading at which it runs and the choices left to the runtime.
\<close>

definition select_ready :: "Context \<Rightarrow> int \<Rightarrow> duration \<Rightarrow> bool list \<Rightarrow> error option \<times> int \<times> bool list" where
  "select_ready ctx s d ts =
     (let fire = s + max 0 d
      in case done_at ctx of
           None \<Rightarrow> (None, fire, ts)
         | Some t \<Rightarrow>
             if max s t < fire then (Some (ctx_Err ctx), max s t, ts)
             else if fire < max s t then (None, fire, ts)
             else (case ts of
                     [] \<Rightarrow> (None, fire, ts)
                   | b # bs \<Rightarrow> (if b then Some (ctx_Err ctx) else None, fire, bs)))"

definition select_wait :: "Context \<Rightarrow> duration \<Rightarrow> world \<Rightarrow> error option \<times> world" where
  "select_wait ctx d w =
     (let (out, fin, ts) = select_ready ctx (clock w) d (ties w)
      in (out, record_call (Call_Wait (clock w) d out) (w\<lparr>clock := fin, ties := ts\<rparr>)))"


section \<open>The tracing wrapper\<close>

text \<open>
  \<open>lockWithTrace\<close> runs the handler between a span start and a log entry. In Go the
  handler returns an error and may assign to variables of its caller; here the handler
  returns those assigned values beside the error, and the wrapper passes them through.
\<close>

definition lockWithTrace ::
  "string \<Rightarrow> string \<Rightarrow> (world \<Rightarrow> ('a \<times> error option) \<times> world) \<Rightarrow> bool \<Rightarrow> world
     \<Rightarrow> ('a \<times> error option) \<times> world" where
  "lockWithTrace operation key handler enableTrace w =
     (let startTime = clock w;
          w1 = (if enableTrace then emit (Span_start (''lock.'' @ operation) operation key) w else w);
          ((x, err), w2) = handler w1;
          duration = clock w2 - startTime;
          w3 = (case err of
                  Some e \<Rightarrow> emit (Log_error ''Lock operation failed'' operation key duration e) w2
                | None \<Rightarrow> emit (Log_info ''Lock operation completed'' operation key duration) w2);
          w4 = (if enableTrace
                then (let w' = emit (Span_duration_ms (duration sdiv Millisecond)) w3
                      in case err of
                           Some e \<Rightarrow> emit (Span_record_error e) (emit (Span_status_error e) w')
                         | None \<Rightarrow> emit Span_status_ok w')
                else w3);
          w5 = (if enableTrace then emit Span_end w4 else w4)
      in ((x, err), w5))"


section \<open>Acquisition\<close>

definition tryLock :: "RedisLock \<Rightarrow> Context \<Rightarrow> world \<Rightarrow> (bool \<times> error option) \<times> world" where
  "tryLock l ctx w =
     (case SetNX (Key (options l)) (lock_value l) (TTL (options l)) w of
        (Inl err, w') \<Rightarrow> ((False, Some (Wrapf ''failed to acquire lock'' err)), w')
      | (Inr ok, w') \<Rightarrow> ((ok, None), w'))"

definition TryLock :: "RedisLock \<Rightarrow> Context \<Rightarrow> world \<Rightarrow> (bool \<times> error option) \<times> world" where
  "TryLock l ctx w =
     (if EnableTrace (options l)
      then lockWithTrace ''try_lock'' (Key (options l)) (tryLock l ctx) True w
      else tryLock l ctx w)"

text \<open>The loop of \<open>lock\<close>, from the value \<open>i\<close> of its counter.\<close>

function lock_from :: "RedisLock \<Rightarrow> Context \<Rightarrow> int \<Rightarrow> world \<Rightarrow> error option \<times> world" where
  "lock_from l ctx i w =
     (if i < MaxRetries (options l)
      then (case TryLock l ctx w of
              ((ok, Some err), w1) \<Rightarrow> (Some err, w1)
            | ((ok, None), w1) \<Rightarrow>
                if ok then (None, w1)
                else (case select_wait ctx (RetryDelay (options l)) w1 of
                        (Some cerr, w2) \<Rightarrow> (Some cerr, w2)
                      | (None, w2) \<Rightarrow> lock_from l ctx (i + 1) w2))
      else (Some (Errorf (''failed to acquire lock after '' @ show_int (MaxRetries (options l))
                            @ '' retries'')), w))"
  by pat_completeness auto
termination
  by (relation "measure (\<lambda>(l, ctx, i, w). nat (MaxRetries (options l) - i))") auto

declare lock_from.simps [simp del]

definition lock :: "RedisLock \<Rightarrow> Context \<Rightarrow> world \<Rightarrow> error option \<times> world" where
  "lock l ctx w = lock_from l ctx 0 w"

definition Lock :: "RedisLock \<Rightarrow> Context \<Rightarrow> world \<Rightarrow> error option \<times> world" where
  "Lock l ctx w =
     (if EnableTrace (options l)
      then (let ((u, err), w') =
                  lockWithTrace ''lock'' (Key (options l))
                    (\<lambda>w. let (err, w') = lock l ctx w in (((), err), w')) True w
            in (err, w'))
      else lock l ctx w)"


section \<open>Release and extension\<close>

definition unlock :: "RedisLock \<Rightarrow> Context \<Rightarrow> world \<Rightarrow> error option \<times> world" where
  "unlock l ctx w =
     (case Eval unlock_script [Key (options l)] [LuaString (lock_value l)] w of
        (Inl err, w') \<Rightarrow> (Some (Wrapf ''failed to release lock'' err), w')
      | (Inr reply, w') \<Rightarrow> (None, w'))"

definition Unlock :: "RedisLock \<Rightarrow> Context \<Rightarrow> world \<Rightarrow> error option \<times> world" where
  "Unlock l ctx w =
     (if EnableTrace (options l)
      then (let ((u, err), w') =
                  lockWithTrace ''unlock'' (Key (options l))
                    (\<lambda>w. let (err, w') = unlock l ctx w in (((), err), w')) True w
            in (err, w'))
      else unlock l ctx w)"

text \<open>
  \<open>float64\<close> gives the binary64 number nearest to a rational, ties to the even
  significand, for magnitudes in the normal range (every value met here is). The exponent
  \<open>e\<close> of a positive \<open>x\<close> has \<open>2 ^ e \<le> x < 2 ^ (e + 1)\<close>; the significand has 53 bits.
\<close>

definition round_half_even :: "rat \<Rightarrow> int" where
  "round_half_even z =
     (let f = \<lfloor>z\<rfloor>; r = z - of_int f
      in if r < 1 / 2 then f else if 1 / 2 < r then f + 1 else if even f then f else f + 1)"

definition float64_exponent :: "rat \<Rightarrow> int" where
  "float64_exponent x = (if 1 \<le> x then bitlen \<lfloor>x\<rfloor> - 1 else - bitlen (\<lceil>1 / x\<rceil> - 1))"

definition float64 :: "rat \<Rightarrow> rat" where
  "float64 x =
     (if x = 0 then 0
      else let q = 2 powi (float64_exponent \<bar>x\<bar> - 52)
           in of_int (round_half_even (x / q)) * q)"

text \<open>\<open>Duration.Seconds\<close> of the standard library:
  \<^verbatim>\<open>sec := d / Second; nsec := d % Second; return float64(sec) + float64(nsec)/1e9\<close>
  with Go's truncating division and remainder.\<close>

definition Seconds :: "duration \<Rightarrow> rat" where
  "Seconds d =
     (let sec = d sdiv Second;
          nsec = d smod Second
      in float64 (float64 (of_int sec) + float64 (float64 (of_int nsec) / float64 1000000000)))"

text \<open>The conversion \<open>int(f)\<close> of a floating-point number drops the fraction.\<close>

definition go_int :: "rat \<Rightarrow> int" where
  "go_int f = (if 0 \<le> f then \<lfloor>f\<rfloor> else \<lceil>f\<rceil>)"

definition extend :: "RedisLock \<Rightarrow> Context \<Rightarrow> duration \<Rightarrow> world \<Rightarrow> error option \<times> world" where
  "extend l ctx duration w =
     (case Eval extend_script [Key (options l)]
             [LuaString (lock_value l), LuaNumber (go_int (Seconds duration))] w of
        (Inl err, w') \<Rightarrow> (Some (Wrapf ''failed to extend lock'' err), w')
      | (Inr reply, w') \<Rightarrow> (None, w'))"

definition Extend :: "RedisLock \<Rightarrow> Context \<Rightarrow> duration \<Rightarrow> world \<Rightarrow> error option \<times> world" where
  "Extend l ctx duration w =
     (if EnableTrace (options l)
      then (let ((u, err), w') =
                  lockWithTrace ''extend'' (Key (options l))
                    (\<lambda>w. let (err, w') = extend l ctx duration w in (((), err), w')) True w
            in (err, w'))
      else extend l ctx duration w)"


section \<open>Auxiliary notions for the statements\<close>

text \<open>
  The log plays no part in what an operation returns or does to the store. \<open>unlogged\<close>
  forgets it; an operation respects the log if worlds that differ in the log alone give
  the same result and leave worlds that differ in the log alone.
\<close>

definition unlogged :: "world \<Rightarrow> world" where
  "unlogged w = w\<lparr>logs := []\<rparr>"

definition respects_logs :: "(world \<Rightarrow> 'a \<times> world) \<Rightarrow> bool" where
  "respects_logs h \<longleftrightarrow>
     (\<forall>w v. unlogged w = unlogged v \<longrightarrow>
        fst (h w) = fst (h v) \<and> unlogged (snd (h w)) = unlogged (snd (h v)))"

text \<open>
  Reading the record of calls of a run of the loop of \<open>lock\<close>. \<open>is_attempt\<close> and \<open>is_wait\<close>
  tell the two kinds of call the loop makes. After a call that \<open>goes_on\<close> the loop
  continues: an attempt that found the key taken, a wait that ran its full time. A wait
  \<open>heeds\<close> the context if it ended with the context's error whenever the context was done
  before the timer was ready. A call \<open>closes\<close> a run with result \<open>r\<close> and final clock
  reading \<open>c\<close> if it accounts for them: a failed round trip gives its wrapped error, an
  attempt that succeeded gives nil, and a wait cut short gives the context's error at the
  instant the context's case was ready.
\<close>

fun is_attempt :: "call \<Rightarrow> bool" where
  "is_attempt (Call_SetNX k v t r) = True"
| "is_attempt c = False"

fun is_wait :: "call \<Rightarrow> bool" where
  "is_wait (Call_Wait s d out) = True"
| "is_wait c = False"

fun goes_on :: "call \<Rightarrow> bool" where
  "goes_on (Call_SetNX k v t r) = (r = Inr False)"
| "goes_on (Call_Wait s d out) = (out = None)"
| "goes_on (Call_Eval K A r) = False"

fun heeds :: "Context \<Rightarrow> call \<Rightarrow> bool" where
  "heeds ctx (Call_Wait s d out) =
     (case done_at ctx of
        None \<Rightarrow> True
      | Some t \<Rightarrow> max s t < s + max 0 d \<longrightarrow> out = Some (ctx_Err ctx))"
| "heeds ctx c = True"

fun closes :: "Context \<Rightarrow> error option \<Rightarrow> int \<Rightarrow> call \<Rightarrow> bool" where
  "closes ctx r c (Call_SetNX k v t res) =
     (case res of
        Inl e \<Rightarrow> r = Some (Wrapf ''failed to acquire lock'' e)
      | Inr ok \<Rightarrow> ok \<longrightarrow> r = None)"
| "closes ctx r c (Call_Wait s d out) =
     (case out of
        None \<Rightarrow> True
      | Some e \<Rightarrow> r = Some e \<and> e = ctx_Err ctx
                  \<and> (case done_at ctx of None \<Rightarrow> False | Some t \<Rightarrow> c = max s t))"
| "closes ctx r c (Call_Eval K A res) = True"



text \<open>
  Concrete handles and worlds for the examples: two handles for the key \<open>res1\<close> with
  different tokens, a context that is never done, a world with an empty store, a world in
  which the first handle holds the lease, and a world whose next round trip fails.
\<close>

definition res1_options :: Options where
  "res1_options = \<lparr>Key = ''res1'', TTL = 30 * Second, RetryDelay = 100 * Millisecond,
                    MaxRetries = 3, EnableTrace = True\<rparr>"

definition handle_A :: RedisLock where
  "handle_A = NewRedisLock 1001 (Some res1_options)"

definition handle_B :: RedisLock where
  "handle_B = NewRedisLock 1002 (Some res1_options)"

definition background :: Context where
  "background = \<lparr>done_at = None, ctx_Err = Canceled\<rparr>"

definition free_world :: world where
  "free_world = \<lparr>store = Map.empty, clock = 2000, faults = [], ties = [], calls = [], logs = []\<rparr>"

definition held_by_A :: world where
  "held_by_A = free_world\<lparr>store := [''res1'' \<mapsto> \<lparr>val = ''1001'', expiry = Some 30000002000\<rparr>]\<rparr>"

definition broken_world :: world where
  "broken_world = held_by_A\<lparr>faults := [Some (Cause ''connection refused'')]\<rparr>"

text \<open>A world whose second round trip fails, and a context cancelled 50 ms after the
  clock reading of these worlds.\<close>

definition flaky_world :: world where
  "flaky_world = held_by_A\<lparr>faults := [None, Some (Cause ''connection reset'')]\<rparr>"

definition cancelled_early :: Context where
  "cancelled_early = \<lparr>done_at = Some 50002000, ctx_Err = Canceled\<rparr>"


definition handle_short :: RedisLock where
  "handle_short = NewRedisLock 1003 (Some (res1_options\<lparr>TTL := 500 * Millisecond\<rparr>))"


section \<open>Decimal formatting is one-to-one\<close>

lemma digit_val_digit_char: "0 \<le> d \<Longrightarrow> d < 10 \<Longrightarrow> digit_val (digit_char d) = d"
  by (simp add: digit_val_def digit_char_def)

lemma digit_char_not_minus: "0 \<le> d \<Longrightarrow> d < 10 \<Longrightarrow> digit_char d \<noteq> CHR ''-''"
proof
  assume d: "0 \<le> d" "d < 10" and eq: "digit_char d = CHR ''-''"
  have "(of_char (digit_char d) :: int) = 48 + d"
    using d by (simp add: digit_char_def)
  moreover have "(of_char (CHR ''-'') :: int) = 45" by simp
  ultimately show False using eq d by simp
qed

lemma read_digits_snoc: "read_digits (xs @ [c]) = 10 * read_digits xs + digit_val c"
  by (simp add: read_digits_def)

lemma show_digits_nonempty: "show_digits n \<noteq> []"
  by (subst show_digits.simps) simp

lemma read_show_digits: "0 \<le> n \<Longrightarrow> read_digits (show_digits n) = n"
proof (induction n rule: show_digits.induct)
  case (1 n)
  show ?case
  proof (cases "n < 10")
    case True
    with "1.prems" show ?thesis
      by (subst show_digits.simps) (simp add: read_digits_def digit_val_digit_char)
  next
    case False
    with "1.prems" have ih: "read_digits (show_digits (n div 10)) = n div 10"
      by (intro "1.IH") auto
    have "digit_val (digit_char (n mod 10)) = n mod 10"
      by (rule digit_val_digit_char) auto
    with False ih show ?thesis
      by (subst show_digits.simps) (simp add: read_digits_snoc)
  qed
qed

lemma show_digits_no_minus: "0 \<le> n \<Longrightarrow> CHR ''-'' \<notin> set (show_digits n)"
proof (induction n rule: show_digits.induct)
  case (1 n)
  show ?case
  proof (cases "n < 10")
    case True
    with "1.prems" digit_char_not_minus [of n] show ?thesis
      by (subst show_digits.simps) auto
  next
    case False
    with "1.prems" have ih: "CHR ''-'' \<notin> set (show_digits (n div 10))"
      by (intro "1.IH") auto
    have "digit_char (n mod 10) \<noteq> CHR ''-''"
      by (rule digit_char_not_minus) auto
    with False ih show ?thesis
      by (subst show_digits.simps) auto
  qed
qed

lemma read_show_int: "read_int (show_int i) = i"
proof (cases "i < 0")
  case True
  then show ?thesis
    by (simp add: show_int_def read_int_def read_show_digits)
next
  case False
  then have nn: "0 \<le> i" by simp
  obtain c cs where cs: "show_digits i = c # cs"
    using show_digits_nonempty [of i] by (cases "show_digits i") auto
  with show_digits_no_minus [OF nn] have "c \<noteq> CHR ''-''" by auto
  with False cs read_show_digits [OF nn] show ?thesis
    by (simp add: show_int_def read_int_def)
qed

lemma show_int_inj: "show_int i = show_int j \<longleftrightarrow> i = j"
  by (metis read_show_int)


section \<open>Configuration and construction\<close>

lemma Second_value: "Second = 1000000000"
  by (simp add: Second_def Millisecond_def Nanosecond_def)

text \<open>
  C7. A disabled configuration passes \<open>Validate\<close> whatever its other fields hold. An enabled
  configuration whose ttl is not positive or whose max_retries is negative is rejected by
  \<open>Validate\<close>, and \<open>ToOptions\<close> returns that same error and no options, so no handle can be
  built from it. The ttl is checked first.
\<close>

theorem Validate_fails_closed:
  "(\<not> cfg_Enabled c \<longrightarrow> Validate (Some c) = None)
   \<and> (cfg_Enabled c \<and> (cfg_TTL c \<le> 0 \<or> cfg_MaxRetries c < 0) \<longrightarrow>
        Validate (Some c) =
          Some (Errorf (if cfg_TTL c \<le> 0 then ''lock ttl must be greater than 0''
                        else ''lock max_retries must be non-negative''))
        \<and> ToOptions (Some c) =
          Inl (Errorf (if cfg_TTL c \<le> 0 then ''lock ttl must be greater than 0''
                       else ''lock max_retries must be non-negative'')))"
  by (simp add: Validate_def ToOptions_def)

theorem Validate_fails_closed_witness:
  "\<not> cfg_Enabled \<lparr>cfg_Enabled = False, cfg_TTL = - 5, cfg_RetryDelay = 0,
                    cfg_MaxRetries = - 1, cfg_EnableTrace = True\<rparr>
   \<and> Validate (Some \<lparr>cfg_Enabled = False, cfg_TTL = - 5, cfg_RetryDelay = 0,
                      cfg_MaxRetries = - 1, cfg_EnableTrace = True\<rparr>) = None
   \<and> cfg_Enabled \<lparr>cfg_Enabled = True, cfg_TTL = 30 * Second, cfg_RetryDelay = 0,
                    cfg_MaxRetries = - 1, cfg_EnableTrace = True\<rparr>
   \<and> cfg_MaxRetries \<lparr>cfg_Enabled = True, cfg_TTL = 30 * Second, cfg_RetryDelay = 0,
                       cfg_MaxRetries = - 1, cfg_EnableTrace = True\<rparr> < 0
   \<and> ToOptions (Some \<lparr>cfg_Enabled = True, cfg_TTL = 30 * Second, cfg_RetryDelay = 0,
                       cfg_MaxRetries = - 1, cfg_EnableTrace = True\<rparr>)
       = Inl (Errorf ''lock max_retries must be non-negative'')"
  using Validate_fails_closed
          [of "\<lparr>cfg_Enabled = False, cfg_TTL = - 5, cfg_RetryDelay = 0,
                cfg_MaxRetries = - 1, cfg_EnableTrace = True\<rparr>"]
        Validate_fails_closed
          [of "\<lparr>cfg_Enabled = True, cfg_TTL = 30 * Second, cfg_RetryDelay = 0,
                cfg_MaxRetries = - 1, cfg_EnableTrace = True\<rparr>"]
  by (simp add: Second_def Millisecond_def Nanosecond_def)

text \<open>Every options value that \<open>ToOptions\<close> returns has a positive TTL.\<close>

lemma ToOptions_positive_TTL:
  assumes "ToOptions c = Inr opts"
  shows "0 < TTL opts"
  using assms
  by (cases c) (auto simp add: ToOptions_def Validate_def Let_def split: if_splits)

text \<open>
  C10. \<open>NewRedisLock\<close> with nil options builds a handle with TTL 30 s, retry delay 100 ms,
  three attempts, tracing on and the empty string as key; two such handles, built at any
  two clock readings, have the same key.
\<close>

theorem NewRedisLock_nil_options:
  "options (NewRedisLock now None) =
     \<lparr>Key = [], TTL = 30 * Second, RetryDelay = 100 * Millisecond, MaxRetries = 3,
      EnableTrace = True\<rparr>
   \<and> TTL (options (NewRedisLock now None)) = 30000000000
   \<and> RetryDelay (options (NewRedisLock now None)) = 100000000
   \<and> Key (options (NewRedisLock now None)) = Key (options (NewRedisLock now' None))"
  by (simp add: NewRedisLock_def Second_def Millisecond_def Nanosecond_def)

text \<open>
  C8, as the code has it. The token is the decimal numeral of the clock reading taken at
  construction, so two handles have the same token exactly when they were built at the
  same clock reading; the options, and with them the key, play no part.
\<close>

theorem token_equal_iff_same_clock_reading:
  "lock_value (NewRedisLock t1 o1) = lock_value (NewRedisLock t2 o2) \<longleftrightarrow> t1 = t2"
  by (simp add: NewRedisLock_def generateLockValue_def show_int_inj)

text \<open>
  C8 as stated fails: two different handles for the key \<open>res1\<close>, built at the same clock
  reading, carry the same token.
\<close>

theorem token_collision:
  "NewRedisLock 1700000000000000000
       (Some \<lparr>Key = ''res1'', TTL = 30 * Second, RetryDelay = 100 * Millisecond,
              MaxRetries = 3, EnableTrace = True\<rparr>)
     \<noteq> NewRedisLock 1700000000000000000
       (Some \<lparr>Key = ''res1'', TTL = 30 * Second, RetryDelay = 200 * Millisecond,
              MaxRetries = 3, EnableTrace = True\<rparr>)
   \<and> lock_value (NewRedisLock 1700000000000000000
       (Some \<lparr>Key = ''res1'', TTL = 30 * Second, RetryDelay = 100 * Millisecond,
              MaxRetries = 3, EnableTrace = True\<rparr>))
     = lock_value (NewRedisLock 1700000000000000000
       (Some \<lparr>Key = ''res1'', TTL = 30 * Second, RetryDelay = 200 * Millisecond,
              MaxRetries = 3, EnableTrace = True\<rparr>))"
  by (simp add: NewRedisLock_def Millisecond_def Nanosecond_def)


section \<open>The log is inert\<close>

lemma unlogged_emit [simp]: "unlogged (emit x w) = unlogged w"
  by (simp add: unlogged_def emit_def)

lemma unlogged_fields [simp]:
  "store (unlogged w) = store w" "clock (unlogged w) = clock w" "faults (unlogged w) = faults w"
  "ties (unlogged w) = ties w" "calls (unlogged w) = calls w"
  by (simp_all add: unlogged_def)

lemma unlogged_eqD:
  assumes "unlogged w = unlogged v"
  shows "store w = store v" "clock w = clock v" "faults w = faults v" "ties w = ties v" "calls w = calls v"
  using assms unlogged_fields by metis+

lemma store_unlogged_eq: "unlogged w = unlogged v \<Longrightarrow> store w = store v"
  by (rule unlogged_eqD)

lemma unlogged_eq_logs: "unlogged w = unlogged v \<Longrightarrow> w = v\<lparr>logs := logs w\<rparr>"
  by (cases w, cases v) (simp add: unlogged_def)

lemma unlogged_logs_update [simp]: "unlogged (w\<lparr>logs := L\<rparr>) = unlogged w"
  by (simp add: unlogged_def)

lemma lookup_frame [simp]:
  "lookup (w\<lparr>logs := L\<rparr>) k = lookup w k"
  "lookup (w\<lparr>faults := F\<rparr>) k = lookup w k"
  "lookup (w\<lparr>ties := T\<rparr>) k = lookup w k"
  "lookup (w\<lparr>calls := C\<rparr>) k = lookup w k"
  by (simp_all add: lookup_def split: option.splits)

lemma lookup_cong: "store w = store v \<Longrightarrow> clock w = clock v \<Longrightarrow> lookup w k = lookup v k"
  by (simp add: lookup_def split: option.splits)

lemma next_fault_frame [simp]:
  "store (snd (next_fault w)) = store w"
  "clock (snd (next_fault w)) = clock w"
  "ties (snd (next_fault w)) = ties w"
  "calls (snd (next_fault w)) = calls w"
  "logs (snd (next_fault w)) = logs w"
  "lookup (snd (next_fault w)) k = lookup w k"
  by (simp_all add: next_fault_def split: list.splits)

lemma record_call_frame [simp]:
  "store (record_call c w) = store w"
  "clock (record_call c w) = clock w"
  "ties (record_call c w) = ties w"
  "faults (record_call c w) = faults w"
  "logs (record_call c w) = logs w"
  "calls (record_call c w) = calls w @ [c]"
  "lookup (record_call c w) k = lookup w k"
  by (simp_all add: record_call_def)

lemma SetNX_logs:
  "SetNX k v e (w\<lparr>logs := L\<rparr>) = (fst (SetNX k v e w), (snd (SetNX k v e w))\<lparr>logs := L\<rparr>)"
  by (auto simp add: SetNX_def next_fault_def record_call_def Let_def split: list.splits option.splits)

lemma Eval_unlock_logs:
  "Eval unlock_script K A (w\<lparr>logs := L\<rparr>) =
     (fst (Eval unlock_script K A w), (snd (Eval unlock_script K A w))\<lparr>logs := L\<rparr>)"
  by (simp add: Eval_def next_fault_def record_call_def unlock_script_def redis_get_def
        redis_del_def lookup_def Let_def split: list.splits option.splits)

lemma Eval_extend_logs:
  "Eval extend_script K A (w\<lparr>logs := L\<rparr>) =
     (fst (Eval extend_script K A w), (snd (Eval extend_script K A w))\<lparr>logs := L\<rparr>)"
  by (simp add: Eval_def next_fault_def record_call_def extend_script_def redis_get_def
        redis_expire_def lookup_def Let_def split: list.splits option.splits lua_value.splits)

lemma select_wait_logs:
  "select_wait ctx d (w\<lparr>logs := L\<rparr>) = (fst (select_wait ctx d w), (snd (select_wait ctx d w))\<lparr>logs := L\<rparr>)"
  by (simp add: select_wait_def record_call_def Let_def split_beta)

lemma respects_logsI:
  assumes "\<And>w L. h (w\<lparr>logs := L\<rparr>) = (fst (h w), (snd (h w))\<lparr>logs := L\<rparr>)"
  shows "respects_logs h"
  unfolding respects_logs_def
proof (intro allI impI)
  fix w v assume "unlogged w = unlogged v"
  then have "w = v\<lparr>logs := logs w\<rparr>" by (rule unlogged_eq_logs)
  then have "h w = (fst (h v), (snd (h v))\<lparr>logs := logs w\<rparr>)"
    using assms [where w = v and L = "logs w"] by simp
  then show "fst (h w) = fst (h v) \<and> unlogged (snd (h w)) = unlogged (snd (h v))"
    by simp
qed

lemma respects_logsD:
  assumes "respects_logs h" "unlogged w = unlogged v"
  shows "fst (h w) = fst (h v)" "unlogged (snd (h w)) = unlogged (snd (h v))"
  using assms unfolding respects_logs_def by blast+

lemma tryLock_respects: "respects_logs (tryLock l ctx)"
  by (rule respects_logsI) (simp add: tryLock_def SetNX_logs split: prod.splits sum.splits)

lemma unlock_respects: "respects_logs (unlock l ctx)"
  by (rule respects_logsI)
     (simp add: unlock_def Eval_unlock_logs split: prod.splits sum.splits)

lemma extend_respects: "respects_logs (extend l ctx d)"
  by (rule respects_logsI)
     (simp add: extend_def Eval_extend_logs split: prod.splits sum.splits)

lemma select_wait_respects: "respects_logs (select_wait ctx d)"
  by (rule respects_logsI) (simp add: select_wait_logs)

lemma lockWithTrace_unlogged:
  assumes "respects_logs h"
  shows "fst (lockWithTrace operation key h b w) = fst (h w)"
    and "unlogged (snd (lockWithTrace operation key h b w)) = unlogged (snd (h w))"
proof -
  let ?w1 = "emit (Span_start (''lock.'' @ operation) operation key) w"
  have "unlogged ?w1 = unlogged w" by simp
  with assms have h: "fst (h ?w1) = fst (h w)" "unlogged (snd (h ?w1)) = unlogged (snd (h w))"
    unfolding respects_logs_def by blast+
  show "fst (lockWithTrace operation key h b w) = fst (h w)"
    using h(1) by (cases b) (simp_all add: lockWithTrace_def Let_def split_beta)
  show "unlogged (snd (lockWithTrace operation key h b w)) = unlogged (snd (h w))"
    using h(2) by (cases b) (simp_all add: lockWithTrace_def Let_def split_beta split: option.splits)
qed

lemma respects_logs_wrap:
  assumes "respects_logs h"
  shows "respects_logs (\<lambda>w. (((), fst (h w)), snd (h w)))"
  unfolding respects_logs_def
proof (intro allI impI)
  fix w v
  assume "unlogged w = unlogged v"
  with assms have "fst (h w) = fst (h v)" "unlogged (snd (h w)) = unlogged (snd (h v))"
    unfolding respects_logs_def by blast+
  then show "fst (((), fst (h w)), snd (h w)) = fst (((), fst (h v)), snd (h v))
      \<and> unlogged (snd (((), fst (h w)), snd (h w))) = unlogged (snd (((), fst (h v)), snd (h v)))"
    by simp
qed

lemma TryLock_tryLock:
  "fst (TryLock l ctx w) = fst (tryLock l ctx w)"
  "unlogged (snd (TryLock l ctx w)) = unlogged (snd (tryLock l ctx w))"
  by (simp_all add: TryLock_def lockWithTrace_unlogged [OF tryLock_respects])

lemma TryLock_respects: "respects_logs (TryLock l ctx)"
  unfolding respects_logs_def
proof (intro allI impI)
  fix w v
  assume "unlogged w = unlogged v"
  from respects_logsD [OF tryLock_respects this, of l ctx]
  show "fst (TryLock l ctx w) = fst (TryLock l ctx v) \<and>
        unlogged (snd (TryLock l ctx w)) = unlogged (snd (TryLock l ctx v))"
    by (simp add: TryLock_tryLock)
qed

lemma Unlock_unlock:
  "fst (Unlock l ctx w) = fst (unlock l ctx w)"
  "unlogged (snd (Unlock l ctx w)) = unlogged (snd (unlock l ctx w))"
  by (simp_all add: Unlock_def split_beta
        lockWithTrace_unlogged [OF respects_logs_wrap [OF unlock_respects]])

lemma Extend_extend:
  "fst (Extend l ctx d w) = fst (extend l ctx d w)"
  "unlogged (snd (Extend l ctx d w)) = unlogged (snd (extend l ctx d w))"
  by (simp_all add: Extend_def split_beta
        lockWithTrace_unlogged [OF respects_logs_wrap [OF extend_respects]])


section \<open>The example handles and worlds\<close>

lemma handle_keys: "Key (options handle_A) = ''res1''" "Key (options handle_B) = ''res1''"
  by (simp_all add: handle_A_def handle_B_def NewRedisLock_def res1_options_def)

lemma handle_tokens: "lock_value handle_A = ''1001''" "lock_value handle_B = ''1002''"
  by code_simp+

lemma handle_ttl: "TTL (options handle_A) = 30000000000"
  by (simp add: handle_A_def NewRedisLock_def res1_options_def Second_value)

lemma handle_B_options:
  "Key (options handle_B) = ''res1''" "MaxRetries (options handle_B) = 3"
  "RetryDelay (options handle_B) = 100000000" "TTL (options handle_B) = 30000000000"
  "lock_value handle_B = ''1002''"
  by code_simp+


lemma example_faults:
  "fst (next_fault free_world) = None"
  "fst (next_fault held_by_A) = None"
  "fst (next_fault broken_world) = Some (Cause ''connection refused'')"
  by (simp_all add: next_fault_def free_world_def held_by_A_def broken_world_def)

lemma example_lookups:
  "lookup free_world ''res1'' = None"
  "lookup held_by_A ''res1'' = Some \<lparr>val = ''1001'', expiry = Some 30000002000\<rparr>"
  by (simp_all add: lookup_def free_world_def held_by_A_def)

lemma example_fields:
  "store free_world = Map.empty" "clock free_world = 2000" "clock held_by_A = 2000"
  "store held_by_A = [''res1'' \<mapsto> \<lparr>val = ''1001'', expiry = Some 30000002000\<rparr>]"
  by (simp_all add: free_world_def held_by_A_def)


section \<open>Acquiring in one round trip\<close>

lemma tryLock_result:
  "fst (tryLock l ctx w) =
     (case fst (next_fault w) of
        Some e \<Rightarrow> (False, Some (Wrapf ''failed to acquire lock'' e))
      | None \<Rightarrow> (lookup w (Key (options l)) = None, None))"
  by (cases "fst (next_fault w)") (simp_all add: tryLock_def SetNX_def Let_def split_beta)

lemma tryLock_store:
  "store (snd (tryLock l ctx w)) =
     (if fst (next_fault w) = None \<and> lookup w (Key (options l)) = None
      then (store w)(Key (options l) \<mapsto>
             \<lparr>val = lock_value l, expiry = Some (clock w + TTL (options l))\<rparr>)
      else store w)"
  by (cases "fst (next_fault w)") (simp_all add: tryLock_def SetNX_def Let_def split_beta)

lemma tryLock_calls:
  "calls (snd (tryLock l ctx w)) =
     calls w @ [Call_SetNX (Key (options l)) (lock_value l) (TTL (options l))
                  (case fst (next_fault w) of
                     Some e \<Rightarrow> Inl e
                   | None \<Rightarrow> Inr (lookup w (Key (options l)) = None))]"
  by (cases "fst (next_fault w)") (simp_all add: tryLock_def SetNX_def Let_def split_beta)

lemma tryLock_frame:
  "clock (snd (tryLock l ctx w)) = clock w"
  "ties (snd (tryLock l ctx w)) = ties w"
  "faults (snd (tryLock l ctx w)) = tl (faults w)"
  by (cases "fst (next_fault w)"; cases "faults w";
      simp add: tryLock_def SetNX_def Let_def split_beta next_fault_def record_call_def)+

lemma TryLock_result:
  "fst (TryLock l ctx w) =
     (case fst (next_fault w) of
        Some e \<Rightarrow> (False, Some (Wrapf ''failed to acquire lock'' e))
      | None \<Rightarrow> (lookup w (Key (options l)) = None, None))"
  by (simp add: TryLock_tryLock(1) tryLock_result)

lemma TryLock_store:
  "store (snd (TryLock l ctx w)) =
     (if fst (next_fault w) = None \<and> lookup w (Key (options l)) = None
      then (store w)(Key (options l) \<mapsto>
             \<lparr>val = lock_value l, expiry = Some (clock w + TTL (options l))\<rparr>)
      else store w)"
  using unlogged_eqD(1) [OF TryLock_tryLock(2), of l ctx w] by (simp add: tryLock_store)

lemma TryLock_calls:
  "calls (snd (TryLock l ctx w)) =
     calls w @ [Call_SetNX (Key (options l)) (lock_value l) (TTL (options l))
                  (case fst (next_fault w) of
                     Some e \<Rightarrow> Inl e
                   | None \<Rightarrow> Inr (lookup w (Key (options l)) = None))]"
  using unlogged_eqD(5) [OF TryLock_tryLock(2), of l ctx w] by (simp add: tryLock_calls)

lemma TryLock_frame:
  "clock (snd (TryLock l ctx w)) = clock w"
  "ties (snd (TryLock l ctx w)) = ties w"
  "faults (snd (TryLock l ctx w)) = tl (faults w)"
  using unlogged_eqD(2,3,4) [OF TryLock_tryLock(2), of l ctx w] by (simp_all add: tryLock_frame)

lemma no_fault_next:
  assumes "\<forall>f\<in>set (take (Suc n) (faults w)). f = None"
  shows "fst (next_fault w) = None" "\<forall>f\<in>set (take n (tl (faults w))). f = None"
  using assms by (cases "faults w"; simp add: next_fault_def)+

lemma TryLock_taken:
  assumes "lookup w (Key (options l)) \<noteq> None" "fst (next_fault w) = None"
  shows "fst (TryLock l ctx w) = (False, None)"
    and "store (snd (TryLock l ctx w)) = store w"
    and "calls (snd (TryLock l ctx w)) =
           calls w @ [Call_SetNX (Key (options l)) (lock_value l) (TTL (options l)) (Inr False)]"
  using assms by (auto simp add: TryLock_result TryLock_store TryLock_calls)

text \<open>
  C4. When the round trip succeeds, \<open>TryLock\<close> returns acquired = true exactly when the store
  has no live entry for the key, and then the store holds the entry (key, token, clock +
  TTL); when a live entry exists it returns acquired = false with a nil error and the
  store is as before. When the round trip fails with \<open>e\<close> it returns the error
  \<open>failed to acquire lock: e\<close>. It returns an error in no other case.
\<close>

theorem TryLock_outcome:
  "(fst (next_fault w) = None \<longrightarrow>
      fst (TryLock l ctx w) = (lookup w (Key (options l)) = None, None)
      \<and> store (snd (TryLock l ctx w)) =
          (if lookup w (Key (options l)) = None
           then (store w)(Key (options l) \<mapsto>
                  \<lparr>val = lock_value l, expiry = Some (clock w + TTL (options l))\<rparr>)
           else store w))
   \<and> (\<forall>e. fst (next_fault w) = Some e \<longrightarrow>
         fst (TryLock l ctx w) = (False, Some (Wrapf ''failed to acquire lock'' e)))
   \<and> (snd (fst (TryLock l ctx w)) \<noteq> None \<longrightarrow> fst (next_fault w) \<noteq> None)"
  using store_unlogged_eq [OF TryLock_tryLock(2), of l ctx w]
  by (cases "fst (next_fault w)") (simp_all add: TryLock_tryLock(1) tryLock_result tryLock_store)

theorem TryLock_outcome_witness:
  "fst (next_fault free_world) = None
   \<and> fst (TryLock handle_A background free_world) = (True, None)
   \<and> store (snd (TryLock handle_A background free_world)) ''res1''
       = Some \<lparr>val = ''1001'', expiry = Some 30000002000\<rparr>
   \<and> fst (next_fault held_by_A) = None
   \<and> fst (TryLock handle_B background held_by_A) = (False, None)
   \<and> store (snd (TryLock handle_B background held_by_A)) = store held_by_A
   \<and> fst (next_fault broken_world) = Some (Cause ''connection refused'')
   \<and> fst (TryLock handle_A background broken_world)
       = (False, Some (Wrapf ''failed to acquire lock'' (Cause ''connection refused'')))"
  using TryLock_outcome [of free_world handle_A background]
        TryLock_outcome [of held_by_A handle_B background]
        TryLock_outcome [of broken_world handle_A background]
  by (simp add: example_faults example_lookups example_fields handle_keys handle_tokens handle_ttl)













section \<open>Release\<close>

lemma unlock_result:
  "fst (unlock l ctx w) =
     (case fst (next_fault w) of
        Some e \<Rightarrow> Some (Wrapf ''failed to release lock'' e)
      | None \<Rightarrow> None)"
  by (cases "fst (next_fault w)"; cases "lookup w (Key (options l))")
     (simp_all add: unlock_def Eval_def unlock_script_def redis_get_def redis_del_def
        Let_def split_beta)

lemma unlock_store:
  "store (snd (unlock l ctx w)) =
     (if fst (next_fault w) = None
          \<and> map_option val (lookup w (Key (options l))) = Some (lock_value l)
      then (store w)(Key (options l) := None)
      else store w)"
  by (cases "fst (next_fault w)"; cases "lookup w (Key (options l))")
     (simp_all add: unlock_def Eval_def unlock_script_def redis_get_def redis_del_def
        Let_def split_beta)

text \<open>
  C1. When the round trip succeeds, \<open>Unlock\<close> returns nil; it removes the entry of the
  handle's key if the live entry's value is the handle's token and leaves the store as it
  was otherwise (another value, or no live entry). When the round trip fails with \<open>e\<close> it
  returns the error \<open>failed to release lock: e\<close>.
\<close>

theorem Unlock_outcome:
  "(fst (next_fault w) = None \<longrightarrow>
      fst (Unlock l ctx w) = None
      \<and> store (snd (Unlock l ctx w)) =
          (if map_option val (lookup w (Key (options l))) = Some (lock_value l)
           then (store w)(Key (options l) := None)
           else store w))
   \<and> (\<forall>e. fst (next_fault w) = Some e \<longrightarrow>
         fst (Unlock l ctx w) = Some (Wrapf ''failed to release lock'' e))"
  using store_unlogged_eq [OF Unlock_unlock(2), of l ctx w]
  by (cases "fst (next_fault w)") (simp_all add: Unlock_unlock(1) unlock_result unlock_store)

theorem Unlock_outcome_witness:
  "fst (next_fault held_by_A) = None
   \<and> fst (Unlock handle_A background held_by_A) = None
   \<and> store (snd (Unlock handle_A background held_by_A)) ''res1'' = None
   \<and> fst (Unlock handle_B background held_by_A) = None
   \<and> store (snd (Unlock handle_B background held_by_A)) = store held_by_A
   \<and> fst (next_fault broken_world) = Some (Cause ''connection refused'')
   \<and> fst (Unlock handle_A background broken_world)
       = Some (Wrapf ''failed to release lock'' (Cause ''connection refused''))"
  using Unlock_outcome [of held_by_A handle_A background]
        Unlock_outcome [of held_by_A handle_B background]
        Unlock_outcome [of broken_world handle_A background]
  by (simp add: example_faults example_lookups example_fields handle_keys handle_tokens)


section \<open>Rounding to binary64\<close>

lemma round_half_even_error: "\<bar>of_int (round_half_even z) - z\<bar> \<le> 1 / 2"
proof -
  define r where "r = z - of_int \<lfloor>z\<rfloor>"
  have r: "0 \<le> r" "r < 1" unfolding r_def by linarith+
  have z: "z = of_int \<lfloor>z\<rfloor> + r" by (simp add: r_def)
  have "(round_half_even z = \<lfloor>z\<rfloor> \<and> r \<le> 1 / 2) \<or> (round_half_even z = \<lfloor>z\<rfloor> + 1 \<and> 1 / 2 \<le> r)"
    unfolding round_half_even_def Let_def r_def [symmetric] by auto
  then show ?thesis
  proof (elim disjE conjE)
    assume "round_half_even z = \<lfloor>z\<rfloor>" "r \<le> 1 / 2"
    then have "of_int (round_half_even z) - z = - r" using z by simp
    with r \<open>r \<le> 1 / 2\<close> show ?thesis by simp
  next
    assume "round_half_even z = \<lfloor>z\<rfloor> + 1" "1 / 2 \<le> r"
    then have "of_int (round_half_even z) - z = 1 - r" using z by simp
    with r \<open>1 / 2 \<le> r\<close> show ?thesis by simp
  qed
qed

lemma round_half_even_of_int [simp]: "round_half_even (of_int n) = n"
  by (simp add: round_half_even_def)

lemma float64_exponent_le:
  assumes "0 < x"
  shows "2 powi (float64_exponent x) \<le> x"
proof (cases "1 \<le> x")
  case True
  let ?m = "\<lfloor>x\<rfloor>"
  from True have m: "0 < ?m" by linarith
  then have b: "1 \<le> bitlen ?m" by (simp add: bitlen_ge_iff_power)
  from bitlen_bounds [OF m] have "2 ^ nat (bitlen ?m - 1) \<le> ?m" by simp
  then have "(of_int (2 ^ nat (bitlen ?m - 1)) :: rat) \<le> of_int ?m"
    by (simp only: of_int_le_iff)
  also have "\<dots> \<le> x" by linarith
  finally have "(2::rat) ^ nat (bitlen ?m - 1) \<le> x" by simp
  with True b show ?thesis
    by (simp add: float64_exponent_def power_int_nonneg_exp)
next
  case False
  let ?n = "\<lceil>1 / x\<rceil> - 1"
  from False assms have "1 < 1 / x" by simp
  then have n: "0 < ?n" by linarith
  from bitlen_bounds [OF n] have "?n < 2 ^ nat (bitlen ?n)" by simp
  then have c: "\<lceil>1 / x\<rceil> \<le> 2 ^ nat (bitlen ?n)" by simp
  have "1 / x \<le> of_int \<lceil>1 / x\<rceil>" by linarith
  also have "\<dots> \<le> 2 ^ nat (bitlen ?n)" using c by simp
  finally have "1 / x \<le> 2 ^ nat (bitlen ?n)" .
  with assms have "1 / 2 ^ nat (bitlen ?n) \<le> x"
    by (simp add: field_simps)
  moreover have "(2::rat) powi (- bitlen ?n) = 1 / 2 ^ nat (bitlen ?n)"
    using bitlen_nonneg [of ?n] by (simp add: power_int_minus_divide power_int_nonneg_exp)
  ultimately show ?thesis using False
    by (simp add: float64_exponent_def)
qed

lemma float64_exponent_less:
  assumes "0 < x" "x < 2 powi N" "0 \<le> N"
  shows "float64_exponent x < N"
proof -
  have "(2::rat) powi (float64_exponent x) < 2 powi N"
    using float64_exponent_le [OF assms(1)] assms(2) by linarith
  then show ?thesis
    by (rule power_int_le_imp_less_exp [rotated]) (use assms(3) in simp_all)
qed

lemma float64_error:
  assumes "x \<noteq> 0"
  shows "\<bar>float64 x - x\<bar> \<le> 2 powi (float64_exponent \<bar>x\<bar> - 53)"
proof -
  define q :: rat where "q = 2 powi (float64_exponent \<bar>x\<bar> - 52)"
  have q: "0 < q" by (simp add: q_def)
  have "float64 x - x = q * (of_int (round_half_even (x / q)) - x / q)"
    using assms q by (simp add: float64_def q_def Let_def field_simps)
  then have "\<bar>float64 x - x\<bar> = q * \<bar>of_int (round_half_even (x / q)) - x / q\<bar>"
    using q by (simp add: abs_mult)
  also have "\<dots> \<le> q * (1 / 2)"
    using q round_half_even_error [of "x / q"] by (intro mult_left_mono) simp_all
  also have "\<dots> = 2 powi (float64_exponent \<bar>x\<bar> - 53)"
    using power_int_add [of "2::rat" "float64_exponent \<bar>x\<bar> - 53" 1]
    by (simp add: q_def)
  finally show ?thesis .
qed

lemma float64_of_int:
  assumes "\<bar>n\<bar> < 2 ^ 53"
  shows "float64 (of_int n) = of_int n"
proof (cases "n = 0")
  case True
  then show ?thesis by (simp add: float64_def)
next
  case False
  let ?m = "\<bar>n\<bar>"
  from False have m: "0 < ?m" by simp
  have b1: "1 \<le> bitlen ?m" using m by (simp add: bitlen_ge_iff_power)
  have b2: "bitlen ?m \<le> 53" using assms by (simp add: bitlen_le_iff_power)
  define j where "j = nat (53 - bitlen ?m)"
  have one: "1 \<le> ?m" using False by linarith
  have e: "float64_exponent \<bar>of_int n :: rat\<bar> = bitlen ?m - 1"
    using one by (simp add: float64_exponent_def flip: of_int_abs)
  have "(2::rat) powi (bitlen ?m - 1 - 52) = 2 powi (- int j)"
    using b2 by (simp add: j_def)
  also have "\<dots> = 1 / 2 ^ j"
    by (simp add: power_int_minus_divide)
  finally have q: "(2::rat) powi (float64_exponent \<bar>of_int n :: rat\<bar> - 52) = 1 / 2 ^ j"
    using e by simp
  have "(of_int n :: rat) / (1 / 2 ^ j) = of_int (n * 2 ^ j)" by simp
  then have "round_half_even (of_int n / (1 / 2 ^ j)) = n * 2 ^ j"
    by (simp only: round_half_even_of_int)
  with False q show ?thesis
    by (simp add: float64_def Let_def)
qed

lemma Seconds_nonneg_parts:
  assumes "0 \<le> d"
  shows "d sdiv Second = d div Second" "d smod Second = d mod Second"
  using assms by (simp_all add: signed_divide_int_def signed_modulo_int_def Second_value sgn_if)

lemma float64_fraction:
  assumes "0 < n" "n < 1000000000"
  shows "of_int n / 1000000000 - 1 / 2 ^ 54 \<le> float64 (of_int n / 1000000000)"
    and "float64 (of_int n / 1000000000) \<le> of_int n / 1000000000 + 1 / 2 ^ 54"
proof -
  let ?x = "of_int n / 1000000000 :: rat"
  have pos: "0 < ?x" using assms by simp
  have "?x < 1" using assms by simp
  then have "?x < 2 powi 0" by simp
  from float64_exponent_less [OF pos this] have "float64_exponent ?x - 53 \<le> - 54" by simp
  then have "(2::rat) powi (float64_exponent ?x - 53) \<le> 2 powi (- 54)"
    by (intro power_int_increasing) simp_all
  moreover have "\<bar>float64 ?x - ?x\<bar> \<le> 2 powi (float64_exponent \<bar>?x\<bar> - 53)"
    using pos by (intro float64_error) simp
  moreover have "\<bar>?x\<bar> = ?x" using pos by simp
  moreover have "(2::rat) powi (- 54) = 1 / 2 ^ 54" by (simp add: power_int_minus_divide)
  ultimately have "\<bar>float64 ?x - ?x\<bar> \<le> 1 / 2 ^ 54" by (simp only:)
  then show "?x - 1 / 2 ^ 54 \<le> float64 ?x" and "float64 ?x \<le> ?x + 1 / 2 ^ 54"
    by linarith+
qed

lemma float64_sum:
  assumes "0 < y" "y < 2 ^ 24"
  shows "y - 1 / 2 ^ 30 \<le> float64 y" and "float64 y \<le> y + 1 / 2 ^ 30"
proof -
  have "y < 2 powi 24" using assms by simp
  from float64_exponent_less [OF assms(1) this] have "float64_exponent y - 53 \<le> - 30" by simp
  then have "(2::rat) powi (float64_exponent y - 53) \<le> 2 powi (- 30)"
    by (intro power_int_increasing) simp_all
  moreover have "\<bar>float64 y - y\<bar> \<le> 2 powi (float64_exponent \<bar>y\<bar> - 53)"
    using assms by (intro float64_error) simp
  moreover have "\<bar>y\<bar> = y" using assms by simp
  moreover have "(2::rat) powi (- 30) = 1 / 2 ^ 30" by (simp add: power_int_minus_divide)
  ultimately have "\<bar>float64 y - y\<bar> \<le> 1 / 2 ^ 30" by (simp only:)
  then show "y - 1 / 2 ^ 30 \<le> float64 y" and "float64 y \<le> y + 1 / 2 ^ 30"
    by linarith+
qed

lemma Seconds_truncates:
  assumes d: "0 \<le> d" and range: "d < 2 ^ 24 * Second \<or> (Second dvd d \<and> d < 2 ^ 63)"
  shows "go_int (Seconds d) = d div Second"
proof -
  define sec where "sec = d div 1000000000"
  define nsec where "nsec = d mod 1000000000"
  have nsec: "0 \<le> nsec" "nsec < 1000000000" by (simp_all add: nsec_def)
  have sec0: "0 \<le> sec" using d by (simp add: sec_def)
  have sec53: "sec < 2 ^ 53" using range d by (auto simp add: sec_def Second_value)
  have A: "float64 (of_int sec) = of_int sec"
    using sec0 sec53 by (intro float64_of_int) simp
  have B: "float64 (of_int nsec) = of_int nsec"
    using nsec by (intro float64_of_int) simp
  have C: "float64 1000000000 = 1000000000"
    using float64_of_int [of 1000000000] by simp
  have parts: "d sdiv Second = sec" "d smod Second = nsec"
    using Seconds_nonneg_parts [OF d] by (simp_all add: sec_def nsec_def Second_value)
  have S: "Seconds d = float64 (of_int sec + float64 (of_int nsec / 1000000000))"
    by (simp add: Seconds_def parts Let_def A B C)
  have "of_int sec \<le> Seconds d \<and> Seconds d < of_int sec + 1"
  proof (cases "nsec = 0")
    case True
    then show ?thesis by (simp add: S float64_def [of 0] A)
  next
    case False
    with nsec have n: "0 < nsec" by simp
    with range have "d < 2 ^ 24 * Second"
      by (auto simp add: nsec_def Second_value mod_eq_0_iff_dvd)
    then have sec24: "sec < 2 ^ 24" by (simp add: sec_def Second_value)
    let ?x = "of_int nsec / 1000000000 :: rat"
    let ?Q = "float64 ?x"
    let ?y = "of_int sec + ?Q"
    have x1: "1 / 1000000000 \<le> ?x" using n by simp
    have x2: "?x \<le> 1 - 1 / 1000000000"
    proof -
      have "nsec \<le> 999999999" using nsec by simp
      then have "(of_int nsec :: rat) \<le> 999999999" by (simp only: of_int_le_numeral_iff)
      then show ?thesis by simp
    qed
    note Q = float64_fraction [OF n nsec(2)]
    have s0: "(0::rat) \<le> of_int sec" using sec0 by simp
    have s24: "(of_int sec :: rat) + 1 \<le> 2 ^ 24"
    proof -
      have "sec + 1 \<le> 2 ^ 24" using sec24 by simp
      then have "(of_int (sec + 1) :: rat) \<le> 2 ^ 24" by (simp only: of_int_le_numeral_power_cancel_iff)
      then show ?thesis by simp
    qed
    have ypos: "0 < ?y" using Q(1) x1 s0 by simp
    have ylt: "?y < 2 ^ 24" using Q(2) x2 s24 by simp
    note E = float64_sum [OF ypos ylt]
    show ?thesis using E Q x1 x2 by (simp add: S)
  qed
  then have "\<lfloor>Seconds d\<rfloor> = sec" by (simp add: floor_unique)
  moreover have "0 \<le> Seconds d" using \<open>of_int sec \<le> Seconds d \<and> _\<close> sec0 by simp
  ultimately show ?thesis by (simp add: go_int_def sec_def Second_value)
qed


section \<open>Extension\<close>

lemma extend_result:
  "fst (extend l ctx d w) =
     (case fst (next_fault w) of
        Some e \<Rightarrow> Some (Wrapf ''failed to extend lock'' e)
      | None \<Rightarrow> None)"
  by (cases "fst (next_fault w)"; cases "lookup w (Key (options l))")
     (simp_all add: extend_def Eval_def extend_script_def redis_get_def redis_expire_def
        Let_def split_beta)

lemma extend_store:
  "store (snd (extend l ctx d w)) =
     (case lookup w (Key (options l)) of
        None \<Rightarrow> store w
      | Some e \<Rightarrow>
          if fst (next_fault w) = None \<and> val e = lock_value l
          then (store w)(Key (options l) \<mapsto>
                 e\<lparr>expiry := Some (clock w + go_int (Seconds d) * Second)\<rparr>)
          else store w)"
  by (cases "fst (next_fault w)"; cases "lookup w (Key (options l))")
     (simp_all add: extend_def Eval_def extend_script_def redis_get_def redis_expire_def
        Let_def split_beta)

lemma extend_clock: "clock (snd (extend l ctx d w)) = clock w"
  by (cases "fst (next_fault w)"; cases "lookup w (Key (options l))")
     (simp_all add: extend_def Eval_def extend_script_def redis_get_def redis_expire_def
        Let_def split_beta)

text \<open>
  What \<open>Extend\<close> does. When the round trip succeeds it returns nil, and it leaves the store
  as it was unless the live entry's value is the handle's token. When it is, the entry's
  expiration becomes the clock plus the duration cut down to whole seconds (for a duration
  below \<open>2 ^ 24\<close> seconds, or of a whole number of seconds): the script sets the expiration
  with \<open>expire\<close>, which counts seconds, and is handed \<open>int(duration.Seconds())\<close>. So a
  duration below one second leaves the owner without its lease, and \<open>Extend\<close> still
  returns nil.
\<close>

lemma Extend_effect:
  "(fst (next_fault w) = None \<longrightarrow> fst (Extend l ctx d w) = None)
   \<and> (fst (next_fault w) = None
        \<and> map_option val (lookup w (Key (options l))) \<noteq> Some (lock_value l) \<longrightarrow>
        store (snd (Extend l ctx d w)) = store w)
   \<and> (\<forall>e. fst (next_fault w) = None \<and> lookup w (Key (options l)) = Some e
          \<and> val e = lock_value l
          \<and> 0 \<le> d \<and> (d < 2 ^ 24 * Second \<or> (Second dvd d \<and> d < 2 ^ 63)) \<longrightarrow>
        store (snd (Extend l ctx d w)) =
          (store w)(Key (options l) \<mapsto> e\<lparr>expiry := Some (clock w + d div Second * Second)\<rparr>))
   \<and> (\<forall>e. fst (next_fault w) = Some e \<longrightarrow>
         fst (Extend l ctx d w) = Some (Wrapf ''failed to extend lock'' e))"
proof -
  have st: "store (snd (Extend l ctx d w)) = store (snd (extend l ctx d w))"
    by (rule store_unlogged_eq) (rule Extend_extend)
  have tr: "go_int (Seconds d) = d div Second"
    if "0 \<le> d" "d < 2 ^ 24 * Second \<or> (Second dvd d \<and> d < 2 ^ 63)"
    using that by (rule Seconds_truncates)
  show ?thesis
    by (cases "fst (next_fault w)"; cases "lookup w (Key (options l))")
       (auto simp add: st Extend_extend(1) extend_result extend_store tr)
qed

lemma Extend_below_one_second:
  assumes "fst (next_fault w) = None"
    and "lookup w (Key (options l)) = Some e"
    and "val e = lock_value l"
    and "0 \<le> d" and "d < Second"
  shows "fst (Extend l ctx d w) = None"
    and "lookup (snd (Extend l ctx d w)) (Key (options l)) = None"
proof -
  have lt: "d < 2 ^ 24 * Second" using assms(4,5) by (simp add: Second_value)
  from Extend_effect [of w l ctx d] assms lt
  have st: "store (snd (Extend l ctx d w)) =
      (store w)(Key (options l) \<mapsto> e\<lparr>expiry := Some (clock w + d div Second * Second)\<rparr>)"
    and r: "fst (Extend l ctx d w) = None"
    by simp_all
  from assms(4,5) have z: "d div Second = 0" by (simp add: Second_value)
  have cl: "clock (snd (Extend l ctx d w)) = clock w"
    using unlogged_eqD(2) [OF Extend_extend(2), of l ctx d w] by (simp add: extend_clock)
  show "fst (Extend l ctx d w) = None" by (rule r)
  show "lookup (snd (Extend l ctx d w)) (Key (options l)) = None"
    by (simp add: lookup_def st cl z)
qed

text \<open>
  C2 fails on the code. The claim: when the stored value is the handle's token, \<open>Extend\<close>
  resets the entry's remaining TTL to the new duration. The code: the first handle holds
  the lease for thirty seconds more and extends it by 500 ms; \<open>Extend\<close> returns nil and the
  entry has lapsed, the lease is gone. Extended by 1.5 s, the entry lapses one second
  after the call. A handle whose TTL is 500 ms acquires the free key and extends the
  lease by its own TTL; \<open>Extend\<close> returns nil and the lease is gone. \<open>TryLock\<close> hands the same
  500 ms to the store whole.
\<close>

theorem Extend_truncates_to_seconds:
  "lookup held_by_A (Key (options handle_A))
     = Some \<lparr>val = lock_value handle_A, expiry = Some (clock held_by_A + 30 * Second)\<rparr>
   \<and> fst (Extend handle_A background (500 * Millisecond) held_by_A) = None
   \<and> lookup (snd (Extend handle_A background (500 * Millisecond) held_by_A)) (Key (options handle_A))
       = None
   \<and> fst (Extend handle_A background (1500 * Millisecond) held_by_A) = None
   \<and> lookup (snd (Extend handle_A background (1500 * Millisecond) held_by_A)) (Key (options handle_A))
       = Some \<lparr>val = lock_value handle_A, expiry = Some (clock held_by_A + 1 * Second)\<rparr>
   \<and> TTL (options handle_short) = 500 * Millisecond
   \<and> fst (TryLock handle_short background free_world) = (True, None)
   \<and> lookup (snd (TryLock handle_short background free_world)) (Key (options handle_short))
       = Some \<lparr>val = lock_value handle_short, expiry = Some (clock free_world + 500 * Millisecond)\<rparr>
   \<and> fst (Extend handle_short background (TTL (options handle_short))
              (snd (TryLock handle_short background free_world))) = None
   \<and> lookup (snd (Extend handle_short background (TTL (options handle_short))
                     (snd (TryLock handle_short background free_world)))) (Key (options handle_short))
       = None"
  by code_simp


section \<open>The acquisition loop\<close>

lemma select_wait_calls:
  "calls (snd (select_wait ctx d w)) = calls w @ [Call_Wait (clock w) d (fst (select_wait ctx d w))]"
  by (simp add: select_wait_def split_beta)

lemma select_wait_frame:
  "store (snd (select_wait ctx d w)) = store w"
  "faults (snd (select_wait ctx d w)) = faults w"
  "fst (select_wait ctx d w) = fst (select_ready ctx (clock w) d (ties w))"
  "clock (snd (select_wait ctx d w)) = fst (snd (select_ready ctx (clock w) d (ties w)))"
  by (simp_all add: select_wait_def split_beta)

lemma select_ready_done:
  assumes "done_at ctx = Some t" "max s t < s + max 0 d"
  shows "select_ready ctx s d ts = (Some (ctx_Err ctx), max s t, ts)"
  using assms by (simp add: select_ready_def Let_def)

lemma select_ready_elapsed:
  assumes "\<forall>t. done_at ctx = Some t \<longrightarrow> s + max 0 d < t"
  shows "select_ready ctx s d ts = (None, s + max 0 d, ts)"
proof (cases "done_at ctx")
  case None
  then show ?thesis by (simp add: select_ready_def Let_def)
next
  case (Some t)
  with assms have "s + max 0 d < t" by simp
  then have "\<not> max s t < s + max 0 d" "s + max 0 d < max s t" by simp_all
  with Some show ?thesis by (simp add: select_ready_def Let_def)
qed

lemma select_ready_late:
  assumes "done_at ctx = Some t" "s + max 0 d < max s t"
  shows "select_ready ctx s d ts = (None, s + max 0 d, ts)"
proof -
  have n: "\<not> max s t < s + max 0 d" using assms(2) by linarith
  show ?thesis
    unfolding select_ready_def Let_def
    by (simp only: assms option.case n if_False if_True)
qed

lemma select_ready_tie:
  assumes "done_at ctx = Some t" "max s t = s + max 0 d"
  shows "select_ready ctx s d ts =
           (case ts of
              [] \<Rightarrow> (None, s + max 0 d, ts)
            | b # bs \<Rightarrow> (if b then Some (ctx_Err ctx) else None, s + max 0 d, bs))"
proof -
  have n: "\<not> max s t < s + max 0 d" "\<not> s + max 0 d < max s t" using assms(2) by linarith+
  show ?thesis
    unfolding select_ready_def Let_def
    by (simp only: assms(1) option.case n if_False)
qed

lemma select_ready_Some:
  assumes "select_ready ctx s d ts = (Some e, c, ts')"
  shows "e = ctx_Err ctx \<and> (\<exists>t. done_at ctx = Some t \<and> c = max s t)"
proof (cases "done_at ctx")
  case None
  with assms show ?thesis by (simp add: select_ready_def Let_def)
next
  case (Some t)
  consider "max s t < s + max 0 d" | "s + max 0 d < max s t" | "max s t = s + max 0 d"
    by linarith
  then show ?thesis
  proof cases
    case 1
    from select_ready_done [OF Some 1, of ts] assms Some show ?thesis by simp
  next
    case 2
    from select_ready_late [OF Some 2, of ts] assms show ?thesis by simp
  next
    case 3
    from select_ready_tie [OF Some 3, of ts] assms have "e = ctx_Err ctx" "c = s + max 0 d"
      by (simp_all split: list.splits if_splits)
    with 3 Some show ?thesis by simp
  qed
qed

lemma select_wait_heeds:
  "heeds ctx (Call_Wait (clock w) d (fst (select_wait ctx d w)))"
  by (cases "done_at ctx") (simp_all add: select_wait_frame select_ready_done)

lemma select_wait_closes:
  assumes "fst (select_wait ctx d w) = Some e"
  shows "closes ctx (Some e) (clock (snd (select_wait ctx d w)))
           (Call_Wait (clock w) d (fst (select_wait ctx d w)))"
proof -
  obtain c ts' where "select_ready ctx (clock w) d (ties w) = (Some e, c, ts')"
    using assms by (cases "select_ready ctx (clock w) d (ties w)") (simp add: select_wait_frame)
  from select_ready_Some [OF this] this assms show ?thesis
    by (auto simp add: select_wait_frame)
qed

lemma lock_from_respects_aux:
  "unlogged w = unlogged v \<Longrightarrow>
     fst (lock_from l ctx i w) = fst (lock_from l ctx i v)
     \<and> unlogged (snd (lock_from l ctx i w)) = unlogged (snd (lock_from l ctx i v))"
proof (induction l ctx i w arbitrary: v rule: lock_from.induct)
  case (1 l ctx i w)
  show ?case
  proof (cases "i < MaxRetries (options l)")
    case False
    with "1.prems" show ?thesis
      by (simp add: lock_from.simps [of l ctx i])
  next
    case True
    obtain ok eo w1 where tw: "TryLock l ctx w = ((ok, eo), w1)" by (metis surj_pair)
    obtain ok' eo' v1 where tv: "TryLock l ctx v = ((ok', eo'), v1)" by (metis surj_pair)
    from respects_logsD [OF TryLock_respects "1.prems", of l ctx] tw tv
    have same1: "ok' = ok" "eo' = eo" "unlogged w1 = unlogged v1" by simp_all
    show ?thesis
    proof (cases eo)
      case (Some err)
      with True tw tv same1 show ?thesis
        by (simp add: lock_from.simps [of l ctx i])
    next
      case None
      show ?thesis
      proof (cases ok)
        case True
        with \<open>i < MaxRetries (options l)\<close> None tw tv same1 show ?thesis
          by (simp add: lock_from.simps [of l ctx i])
      next
        case False
        obtain out w2 where sw: "select_wait ctx (RetryDelay (options l)) w1 = (out, w2)"
          by (metis surj_pair)
        obtain out' v2 where sv: "select_wait ctx (RetryDelay (options l)) v1 = (out', v2)"
          by (metis surj_pair)
        from respects_logsD [OF select_wait_respects same1(3), of ctx "RetryDelay (options l)"] sw sv
        have same2: "out' = out" "unlogged w2 = unlogged v2" by simp_all
        show ?thesis
        proof (cases out)
          case (Some cerr)
          with \<open>i < MaxRetries (options l)\<close> None False tw tv same1 sw sv same2 show ?thesis
            by (simp add: lock_from.simps [of l ctx i])
        next
          case out: None
          have "fst (lock_from l ctx (i + 1) w2) = fst (lock_from l ctx (i + 1) v2)
              \<and> unlogged (snd (lock_from l ctx (i + 1) w2)) = unlogged (snd (lock_from l ctx (i + 1) v2))"
            using \<open>i < MaxRetries (options l)\<close> tw None False sw out same2(2)
            by (intro "1.IH" [of "(ok, eo)" w1 ok eo out w2 v2]) simp_all
          with \<open>i < MaxRetries (options l)\<close> None False tw tv same1 sw sv same2 out show ?thesis
            by (simp add: lock_from.simps [of l ctx i])
        qed
      qed
    qed
  qed
qed

lemma lock_respects: "respects_logs (lock l ctx)"
  unfolding respects_logs_def lock_def using lock_from_respects_aux by blast

lemma Lock_lock:
  "fst (Lock l ctx w) = fst (lock l ctx w)"
  "unlogged (snd (Lock l ctx w)) = unlogged (snd (lock l ctx w))"
  by (simp_all add: Lock_def split_beta
        lockWithTrace_unlogged [OF respects_logs_wrap [OF lock_respects]])

lemma TryLock_event:
  obtains res where
    "calls (snd (TryLock l ctx w)) =
       calls w @ [Call_SetNX (Key (options l)) (lock_value l) (TTL (options l)) res]"
    "fst (TryLock l ctx w) =
       (case res of Inl e \<Rightarrow> (False, Some (Wrapf ''failed to acquire lock'' e))
                  | Inr b \<Rightarrow> (b, None))"
proof (cases "fst (next_fault w)")
  case None
  show ?thesis
    by (rule that [of "Inr (lookup w (Key (options l)) = None)"])
       (simp_all add: TryLock_calls TryLock_result None)
next
  case (Some e)
  show ?thesis
    by (rule that [of "Inl e"]) (simp_all add: TryLock_calls TryLock_result Some)
qed

lemma lock_from_trace:
  "\<exists>cs. calls (snd (lock_from l ctx i w)) = calls w @ cs
      \<and> (\<forall>c\<in>set (butlast cs). goes_on c)
      \<and> (\<forall>c\<in>set cs. heeds ctx c)
      \<and> (cs \<noteq> [] \<longrightarrow>
           closes ctx (fst (lock_from l ctx i w)) (clock (snd (lock_from l ctx i w))) (last cs))"
proof (induction l ctx i w rule: lock_from.induct)
  case (1 l ctx i w)
  let ?d = "RetryDelay (options l)"
  show ?case
  proof (cases "i < MaxRetries (options l)")
    case False
    then have "lock_from l ctx i w =
        (Some (Errorf (''failed to acquire lock after '' @ show_int (MaxRetries (options l))
                         @ '' retries'')), w)"
      by (simp add: lock_from.simps [of l ctx i])
    then show ?thesis by simp
  next
    case True
    obtain ok eo w1 where tw: "TryLock l ctx w = ((ok, eo), w1)" by (metis surj_pair)
    obtain res where
      ev1: "calls w1 = calls w @ [Call_SetNX (Key (options l)) (lock_value l) (TTL (options l)) res]"
      and res: "(ok, eo) = (case res of Inl e \<Rightarrow> (False, Some (Wrapf ''failed to acquire lock'' e))
                                      | Inr b \<Rightarrow> (b, None))"
      using TryLock_event [of l ctx w] tw by (metis fst_conv snd_conv)
    let ?e1 = "Call_SetNX (Key (options l)) (lock_value l) (TTL (options l)) res"
    show ?thesis
    proof (cases eo)
      case (Some err)
      with True tw have r: "lock_from l ctx i w = (Some err, w1)"
        by (simp add: lock_from.simps [of l ctx i])
      from Some res have "closes ctx (Some err) (clock w1) ?e1"
        by (cases res) simp_all
      with r ev1 show ?thesis by simp
    next
      case None
      show ?thesis
      proof (cases ok)
        case True
        with \<open>i < MaxRetries (options l)\<close> None tw have r: "lock_from l ctx i w = (None, w1)"
          by (simp add: lock_from.simps [of l ctx i])
        from None res have "closes ctx None (clock w1) ?e1"
          by (cases res) simp_all
        with r ev1 show ?thesis by simp
      next
        case False
        with None res have g1: "goes_on ?e1" by (cases res) simp_all
        obtain out w2 where sw: "select_wait ctx ?d w1 = (out, w2)" by (metis surj_pair)
        let ?e2 = "Call_Wait (clock w1) ?d out"
        have ev2: "calls w2 = calls w1 @ [?e2]"
          using select_wait_calls [of ctx ?d w1] sw by simp
        have h2: "heeds ctx ?e2"
          using select_wait_heeds [of ctx w1 ?d] sw by simp
        show ?thesis
        proof (cases out)
          case (Some cerr)
          with \<open>i < MaxRetries (options l)\<close> None False tw sw
          have r: "lock_from l ctx i w = (Some cerr, w2)"
            by (simp add: lock_from.simps [of l ctx i])
          have "closes ctx (Some cerr) (clock w2) ?e2"
            using select_wait_closes [of ctx ?d w1 cerr] sw Some by simp
          with r ev1 ev2 g1 h2 show ?thesis by simp
        next
          case out: None
          with \<open>i < MaxRetries (options l)\<close> None False tw sw
          have r: "lock_from l ctx i w = lock_from l ctx (i + 1) w2"
            by (simp add: lock_from.simps [of l ctx i])
          from out have g2: "goes_on ?e2" by simp
          have "\<exists>cs. calls (snd (lock_from l ctx (i + 1) w2)) = calls w2 @ cs
              \<and> (\<forall>c\<in>set (butlast cs). goes_on c)
              \<and> (\<forall>c\<in>set cs. heeds ctx c)
              \<and> (cs \<noteq> [] \<longrightarrow>
                   closes ctx (fst (lock_from l ctx (i + 1) w2))
                     (clock (snd (lock_from l ctx (i + 1) w2))) (last cs))"
            using \<open>i < MaxRetries (options l)\<close> tw None False sw out
            by (intro "1.IH" [of "(ok, eo)" w1 ok eo out w2]) simp_all
          then obtain cs where
            c1: "calls (snd (lock_from l ctx (i + 1) w2)) = calls w2 @ cs"
            and c2: "\<forall>c\<in>set (butlast cs). goes_on c"
            and c3: "\<forall>c\<in>set cs. heeds ctx c"
            and c4: "cs \<noteq> [] \<longrightarrow>
                   closes ctx (fst (lock_from l ctx (i + 1) w2))
                     (clock (snd (lock_from l ctx (i + 1) w2))) (last cs)"
            by blast
          let ?cs = "?e1 # ?e2 # cs"
          have a: "calls (snd (lock_from l ctx i w)) = calls w @ ?cs"
            using r c1 ev1 ev2 by simp
          have b: "\<forall>c\<in>set (butlast ?cs). goes_on c"
            using g1 g2 c2 by (cases "cs = []") simp_all
          have c: "\<forall>c\<in>set ?cs. heeds ctx c"
            using h2 c3 by simp
          have d: "closes ctx (fst (lock_from l ctx i w)) (clock (snd (lock_from l ctx i w))) (last ?cs)"
            using r c4 out by (cases "cs = []") simp_all
          from a b c d show ?thesis by blast
        qed
      qed
    qed
  qed
qed

lemma Lock_trace:
  assumes "calls (snd (Lock l ctx w)) = calls w @ cs"
  shows "\<forall>c\<in>set (butlast cs). goes_on c"
    and "\<forall>c\<in>set cs. heeds ctx c"
    and "cs \<noteq> [] \<Longrightarrow> closes ctx (fst (Lock l ctx w)) (clock (snd (Lock l ctx w))) (last cs)"
proof -
  have eq: "calls (snd (Lock l ctx w)) = calls (snd (lock_from l ctx 0 w))"
    "clock (snd (Lock l ctx w)) = clock (snd (lock_from l ctx 0 w))"
    "fst (Lock l ctx w) = fst (lock_from l ctx 0 w)"
    using unlogged_eqD(2,5) [OF Lock_lock(2), of l ctx w] Lock_lock(1) [of l ctx w]
    by (simp_all add: lock_def)
  from lock_from_trace [of l ctx 0 w] obtain cs' where
    c: "calls (snd (lock_from l ctx 0 w)) = calls w @ cs'"
      "\<forall>c\<in>set (butlast cs'). goes_on c" "\<forall>c\<in>set cs'. heeds ctx c"
      "cs' \<noteq> [] \<longrightarrow> closes ctx (fst (lock_from l ctx 0 w)) (clock (snd (lock_from l ctx 0 w))) (last cs')"
    by blast
  from c(1) assms eq(1) have "cs' = cs" by simp
  with c eq show "\<forall>c\<in>set (butlast cs). goes_on c" "\<forall>c\<in>set cs. heeds ctx c"
    "cs \<noteq> [] \<Longrightarrow> closes ctx (fst (Lock l ctx w)) (clock (snd (Lock l ctx w))) (last cs)"
    by simp_all
qed

lemma not_goes_on_last:
  assumes "\<forall>c\<in>set (butlast cs). goes_on c" "j < length cs" "\<not> goes_on (cs ! j)"
  shows "Suc j = length cs" "last cs = cs ! j"
proof -
  have "\<not> j < length (butlast cs)"
  proof
    assume "j < length (butlast cs)"
    then have "butlast cs ! j \<in> set (butlast cs)" and "butlast cs ! j = cs ! j"
      by (rule nth_mem, rule nth_butlast)
    with assms show False by auto
  qed
  with assms(2) show "Suc j = length cs" by simp
  then show "last cs = cs ! j"
    using assms(2) by (metis diff_Suc_1 last_conv_nth length_greater_0_conv less_nat_zero_code list.size(3))
qed

text \<open>
  C6. Take any run of \<open>Lock\<close> and the calls it makes, in order. If one of them is a round
  trip of \<open>TryLock\<close> that failed with the store error \<open>e\<close>, then it is the last call of the
  run (no attempt and no wait comes after it) and \<open>Lock\<close> returns the error of that
  attempt, \<open>failed to acquire lock: e\<close>.
\<close>

theorem Lock_store_error_aborts:
  assumes "calls (snd (Lock l ctx w)) = calls w @ cs"
    and "j < length cs"
    and "cs ! j = Call_SetNX k v t (Inl e)"
  shows "fst (Lock l ctx w) = Some (Wrapf ''failed to acquire lock'' e) \<and> Suc j = length cs"
proof -
  note tr = Lock_trace [OF assms(1)]
  have "\<not> goes_on (cs ! j)" using assms(3) by simp
  from not_goes_on_last [OF tr(1) assms(2) this]
  have last: "Suc j = length cs" "last cs = cs ! j" .
  from assms(2) have "cs \<noteq> []" by auto
  from tr(3) [OF this] last assms(3) show ?thesis by simp
qed

theorem Lock_store_error_aborts_witness:
  "calls (snd (Lock handle_B background flaky_world)) =
     calls flaky_world @
       [Call_SetNX ''res1'' ''1002'' 30000000000 (Inr False),
        Call_Wait 2000 100000000 None,
        Call_SetNX ''res1'' ''1002'' 30000000000 (Inl (Cause ''connection reset''))]
   \<and> fst (Lock handle_B background flaky_world)
       = Some (Wrapf ''failed to acquire lock'' (Cause ''connection reset''))"
proof -
  have c: "calls (snd (Lock handle_B background flaky_world)) =
     calls flaky_world @
       [Call_SetNX ''res1'' ''1002'' 30000000000 (Inr False),
        Call_Wait 2000 100000000 None,
        Call_SetNX ''res1'' ''1002'' 30000000000 (Inl (Cause ''connection reset''))]"
    by code_simp
  from Lock_store_error_aborts [OF c, of 2 "''res1''" "''1002''" 30000000000 "Cause ''connection reset''"] c
  show ?thesis by simp
qed

text \<open>
  C5. Take any run of \<open>Lock\<close> and the calls it makes, in order. If one of them is a wait
  entered at clock reading \<open>s\<close> with a positive delay \<open>d\<close>, and the context is done at a
  reading \<open>t\<close> before \<open>s + d\<close>, then \<open>Lock\<close> returns the context's error, the wait is the last
  call of the run (no attempt comes after it), and \<open>Lock\<close> returns at the instant the
  context's case was ready, before the delay has run out.
\<close>

theorem Lock_cancelled_during_wait:
  assumes "calls (snd (Lock l ctx w)) = calls w @ cs"
    and "j < length cs"
    and "cs ! j = Call_Wait s d out"
    and "done_at ctx = Some t"
    and "0 < d"
    and "t < s + d"
  shows "fst (Lock l ctx w) = Some (ctx_Err ctx) \<and> Suc j = length cs
         \<and> clock (snd (Lock l ctx w)) = max s t \<and> clock (snd (Lock l ctx w)) < s + d"
proof -
  note tr = Lock_trace [OF assms(1)]
  have m: "max s t < s + max 0 d" using assms(5,6) by simp
  have "heeds ctx (cs ! j)" using tr(2) assms(2) by simp
  with assms(3,4) m have out: "out = Some (ctx_Err ctx)" by simp
  with assms(3) have "\<not> goes_on (cs ! j)" by simp
  from not_goes_on_last [OF tr(1) assms(2) this]
  have last: "Suc j = length cs" "last cs = cs ! j" .
  from assms(2) have "cs \<noteq> []" by auto
  from tr(3) [OF this] last assms(3,4) out
  have "fst (Lock l ctx w) = Some (ctx_Err ctx)" "clock (snd (Lock l ctx w)) = max s t"
    by simp_all
  with last(1) assms(5,6) show ?thesis by simp
qed

theorem Lock_cancelled_during_wait_witness:
  "calls (snd (Lock handle_B cancelled_early held_by_A)) =
     calls held_by_A @
       [Call_SetNX ''res1'' ''1002'' 30000000000 (Inr False),
        Call_Wait 2000 100000000 (Some Canceled)]
   \<and> done_at cancelled_early = Some 50002000
   \<and> (0::int) < 100000000 \<and> (50002000::int) < 2000 + 100000000
   \<and> fst (Lock handle_B cancelled_early held_by_A) = Some Canceled
   \<and> clock (snd (Lock handle_B cancelled_early held_by_A)) = 50002000"
proof -
  have c: "calls (snd (Lock handle_B cancelled_early held_by_A)) =
     calls held_by_A @
       [Call_SetNX ''res1'' ''1002'' 30000000000 (Inr False),
        Call_Wait 2000 100000000 (Some Canceled)]"
    by code_simp
  have d: "done_at cancelled_early = Some 50002000" by (simp add: cancelled_early_def)
  from Lock_cancelled_during_wait [OF c _ _ d, of 1 2000 100000000 "Some Canceled"] c d
  show ?thesis by (simp add: cancelled_early_def)
qed

lemma attempts_concat:
  "length (filter is_attempt (concat (map (\<lambda>j. [Call_SetNX k v t r, Call_Wait (f j) d out]) js)))
     = length js"
  "length (filter is_wait (concat (map (\<lambda>j. [Call_SetNX k v t r, Call_Wait (f j) d out]) js)))
     = length js"
  by (induction js) simp_all

lemma lock_from_held:
  assumes "MaxRetries (options l) - i = int n"
    and "\<forall>j<n. lookup (w\<lparr>clock := clock w + int j * max 0 (RetryDelay (options l))\<rparr>)
                  (Key (options l)) \<noteq> None"
    and "\<forall>f\<in>set (take n (faults w)). f = None"
    and "\<forall>t. done_at ctx = Some t \<longrightarrow> clock w + int n * max 0 (RetryDelay (options l)) < t"
  shows "fst (lock_from l ctx i w) =
           Some (Errorf (''failed to acquire lock after '' @ show_int (MaxRetries (options l))
                           @ '' retries''))
       \<and> calls (snd (lock_from l ctx i w)) =
           calls w @ concat (map (\<lambda>j. [Call_SetNX (Key (options l)) (lock_value l) (TTL (options l)) (Inr False),
                                        Call_Wait (clock w + int j * max 0 (RetryDelay (options l)))
                                          (RetryDelay (options l)) None]) [0..<n])"
  using assms
proof (induction n arbitrary: i w)
  case 0
  then have "\<not> i < MaxRetries (options l)" by simp
  then show ?case by (simp add: lock_from.simps [of l ctx i])
next
  case (Suc n)
  let ?d = "RetryDelay (options l)"
  let ?D = "max 0 ?d"
  let ?k = "Key (options l)"
  from Suc.prems(1) have lt: "i < MaxRetries (options l)" by simp
  have "lookup (w\<lparr>clock := clock w + int 0 * ?D\<rparr>) ?k \<noteq> None"
    using Suc.prems(2) by blast
  moreover have "lookup (w\<lparr>clock := clock w + int 0 * ?D\<rparr>) ?k = lookup w ?k"
    by (rule lookup_cong) simp_all
  ultimately have held: "lookup w ?k \<noteq> None" by simp
  note nf = no_fault_next [OF Suc.prems(3)]
  obtain r w1 where tw: "TryLock l ctx w = (r, w1)" by (metis surj_pair)
  from TryLock_taken [OF held nf(1), of ctx] tw
  have r: "r = (False, None)" and st1: "store w1 = store w"
    and ca1: "calls w1 = calls w @ [Call_SetNX ?k (lock_value l) (TTL (options l)) (Inr False)]"
    by simp_all
  from TryLock_frame [of l ctx w] tw
  have fr1: "clock w1 = clock w" "ties w1 = ties w" "faults w1 = tl (faults w)" by simp_all
  have el: "\<forall>t. done_at ctx = Some t \<longrightarrow> clock w1 + ?D < t"
  proof (intro allI impI)
    fix t assume "done_at ctx = Some t"
    with Suc.prems(4) have "clock w + int (Suc n) * ?D < t" by blast
    moreover have "0 \<le> int n * ?D" by simp
    moreover have "int (Suc n) * ?D = ?D + int n * ?D" by (simp add: algebra_simps)
    ultimately show "clock w1 + ?D < t" unfolding fr1(1) by linarith
  qed
  obtain out w2 where sw: "select_wait ctx ?d w1 = (out, w2)" by (metis surj_pair)
  from select_ready_elapsed [OF el, where ts = "ties w1"] select_wait_frame [of ctx ?d w1]
    select_wait_calls [of ctx ?d w1] sw
  have out: "out = None" and st2: "store w2 = store w1" and fa2: "faults w2 = faults w1"
    and cl2: "clock w2 = clock w1 + ?D"
    and ca2: "calls w2 = calls w1 @ [Call_Wait (clock w1) ?d None]"
    by simp_all
  from lt tw r sw out have step: "lock_from l ctx i w = lock_from l ctx (i + 1) w2"
    by (simp add: lock_from.simps [of l ctx i])
  have p1: "MaxRetries (options l) - (i + 1) = int n" using Suc.prems(1) by simp
  have p2: "\<forall>j<n. lookup (w2\<lparr>clock := clock w2 + int j * ?D\<rparr>) ?k \<noteq> None"
  proof (intro allI impI)
    fix j assume "j < n"
    then have "Suc j < Suc n" by simp
    with Suc.prems(2) have "lookup (w\<lparr>clock := clock w + int (Suc j) * ?D\<rparr>) ?k \<noteq> None"
      by blast
    moreover have "lookup (w2\<lparr>clock := clock w2 + int j * ?D\<rparr>) ?k
        = lookup (w\<lparr>clock := clock w + int (Suc j) * ?D\<rparr>) ?k"
      by (rule lookup_cong) (simp_all add: st1 st2 cl2 fr1 algebra_simps)
    ultimately show "lookup (w2\<lparr>clock := clock w2 + int j * ?D\<rparr>) ?k \<noteq> None" by simp
  qed
  have p3: "\<forall>f\<in>set (take n (faults w2)). f = None"
    using nf(2) fa2 fr1(3) by simp
  have p4: "\<forall>t. done_at ctx = Some t \<longrightarrow> clock w2 + int n * ?D < t"
  proof (intro allI impI)
    fix t assume "done_at ctx = Some t"
    with Suc.prems(4) have "clock w + int (Suc n) * ?D < t" by blast
    then show "clock w2 + int n * ?D < t" using cl2 fr1(1) by (simp add: algebra_simps)
  qed
  note ih = Suc.IH [OF p1 p2 p3 p4]
  have sh: "clock w2 + int j * ?D = clock w + int (Suc j) * ?D" for j
    by (simp add: cl2 fr1 algebra_simps)
  have "concat (map (\<lambda>j. [Call_SetNX ?k (lock_value l) (TTL (options l)) (Inr False),
                            Call_Wait (clock w + int j * ?D) ?d None]) [0..<Suc n])
      = [Call_SetNX ?k (lock_value l) (TTL (options l)) (Inr False), Call_Wait (clock w) ?d None]
        @ concat (map (\<lambda>j. [Call_SetNX ?k (lock_value l) (TTL (options l)) (Inr False),
                              Call_Wait (clock w2 + int j * ?D) ?d None]) [0..<n])"
    by (simp only: map_upt_Suc) (simp add: sh)
  with ih step ca1 ca2 fr1(1) show ?case by simp
qed

text \<open>
  C3, as the code has it. Let \<open>MaxRetries\<close> be \<open>k \<ge> 1\<close>, let the key have a live entry at each
  of the \<open>k\<close> attempts, let none of the \<open>k\<close> round trips fail and let the context not be done
  before the last wait is over. Then \<open>Lock\<close> makes exactly \<open>k\<close> attempts and exactly \<open>k\<close> waits,
  one after each attempt and so one after the last attempt too, and returns the error
  \<open>failed to acquire lock after k retries\<close>.
\<close>

theorem Lock_exhausts_after_k_attempts:
  assumes "1 \<le> k"
    and "MaxRetries (options l) = k"
    and "\<forall>j<nat k. lookup (w\<lparr>clock := clock w + int j * max 0 (RetryDelay (options l))\<rparr>)
                      (Key (options l)) \<noteq> None"
    and "\<forall>f\<in>set (take (nat k) (faults w)). f = None"
    and "\<forall>t. done_at ctx = Some t \<longrightarrow> clock w + k * max 0 (RetryDelay (options l)) < t"
  shows "fst (Lock l ctx w) =
           Some (Errorf (''failed to acquire lock after '' @ show_int k @ '' retries''))
       \<and> drop (length (calls w)) (calls (snd (Lock l ctx w))) =
           concat (map (\<lambda>j. [Call_SetNX (Key (options l)) (lock_value l) (TTL (options l)) (Inr False),
                              Call_Wait (clock w + int j * max 0 (RetryDelay (options l)))
                                (RetryDelay (options l)) None]) [0..<nat k])
       \<and> length (filter is_attempt (drop (length (calls w)) (calls (snd (Lock l ctx w))))) = nat k
       \<and> length (filter is_wait (drop (length (calls w)) (calls (snd (Lock l ctx w))))) = nat k"
proof -
  have eq: "calls (snd (Lock l ctx w)) = calls (snd (lock_from l ctx 0 w))"
    "fst (Lock l ctx w) = fst (lock_from l ctx 0 w)"
    using unlogged_eqD(5) [OF Lock_lock(2), of l ctx w] Lock_lock(1) [of l ctx w]
    by (simp_all add: lock_def)
  have n: "MaxRetries (options l) - 0 = int (nat k)" using assms(1,2) by simp
  have c: "\<forall>t. done_at ctx = Some t \<longrightarrow>
             clock w + int (nat k) * max 0 (RetryDelay (options l)) < t"
    using assms(1,5) by simp
  from lock_from_held [OF n assms(3,4) c] eq assms(2)
  show ?thesis by (simp add: attempts_concat)
qed

theorem Lock_exhausts_after_k_attempts_witness:
  "(1::int) \<le> 3 \<and> MaxRetries (options handle_B) = 3
   \<and> lookup held_by_A (Key (options handle_B)) \<noteq> None
   \<and> lookup (held_by_A\<lparr>clock := clock held_by_A + 2 * max 0 (RetryDelay (options handle_B))\<rparr>)
         (Key (options handle_B)) \<noteq> None
   \<and> faults held_by_A = []
   \<and> done_at background = None
   \<and> fst (Lock handle_B background held_by_A)
       = Some (Errorf (''failed to acquire lock after '' @ show_int 3 @ '' retries''))
   \<and> length (filter is_attempt (drop (length (calls held_by_A))
                (calls (snd (Lock handle_B background held_by_A))))) = 3
   \<and> length (filter is_wait (drop (length (calls held_by_A))
                (calls (snd (Lock handle_B background held_by_A))))) = 3"
proof -
  have h3: "\<forall>j<nat 3. lookup (held_by_A\<lparr>clock := clock held_by_A + int j * max 0 (RetryDelay (options handle_B))\<rparr>)
                     (Key (options handle_B)) \<noteq> None"
    by (simp add: handle_B_options lookup_def held_by_A_def free_world_def)
  have h4: "\<forall>f\<in>set (take (nat 3) (faults held_by_A)). f = None"
    by (simp add: held_by_A_def free_world_def)
  have h5: "\<forall>t. done_at background = Some t \<longrightarrow>
            clock held_by_A + 3 * max 0 (RetryDelay (options handle_B)) < t"
    by (simp add: background_def)
  from Lock_exhausts_after_k_attempts [of 3 handle_B held_by_A background,
         OF _ handle_B_options(2) h3 h4 h5] h3 handle_B_options(2)
  show ?thesis
    by (simp add: attempts_concat handle_B_options lookup_def held_by_A_def free_world_def
          background_def)
qed

text \<open>
  C3 as stated fails: with three attempts against a key that the first handle holds, the
  second handle's \<open>Lock\<close> waits three times, not twice; its last call is a wait, and it
  returns 300 ms after it was called.
\<close>

theorem Lock_waits_after_last_attempt:
  "MaxRetries (options handle_B) = 3
   \<and> calls held_by_A = []
   \<and> fst (Lock handle_B background held_by_A)
       = Some (Errorf ''failed to acquire lock after 3 retries'')
   \<and> length (filter is_attempt (calls (snd (Lock handle_B background held_by_A)))) = 3
   \<and> length (filter is_wait (calls (snd (Lock handle_B background held_by_A)))) = 3
   \<and> last (calls (snd (Lock handle_B background held_by_A))) = Call_Wait 200002000 100000000 None
   \<and> clock (snd (Lock handle_B background held_by_A)) = 2000 + 3 * 100000000"
  by code_simp

end
